theory Spec2Isabelle
  imports Complex_Main "HOL-Library.AList"
begin

section \<open>Data model (types/orderbook)\<close>

text \<open>
  JavaScript numbers are modelled as exact reals: rounding of IEEE doubles and overflow
  are not part of the model. Where IEEE arithmetic would leave the finite numbers (a
  division by zero giving \<open>NaN\<close> or \<open>\<plusminus>Infinity\<close>), the model says so at
  that place: a comparison against such a value is written out with the truth value it
  has in JavaScript, and a function whose result would carry such a value returns
  \<open>None\<close>. The one exception is \<open>mergeNearbyZones\<close>: what a second application of it
  does depends on the rounding of the weighted price, so this function is modelled a
  second time, with the rounding of every operation written out.
\<close>

record OrderBookLevel =
  price :: real
  quantity :: real
  total :: real
  timestamp :: real

record OrderBookData =
  bids :: "OrderBookLevel list"
  asks :: "OrderBookLevel list"
  symbol :: string
  venue :: string
  data_timestamp :: real

datatype zone_type = support | resistance

record PressureZone =
  zone_price :: real
  intensity :: real
  zone_type :: zone_type
  volume :: real

datatype tightness = tight | normal | wide

record SpreadAnalysis =
  spread :: real
  spreadPercent :: real
  midPrice :: real
  tightness :: tightness

section \<open>PressureZoneAnalyzer (lib/pressure-analysis.ts)\<close>

subsection \<open>mergeNearbyZones\<close>

definition VOLUME_THRESHOLD_MULTIPLIER :: real where
  "VOLUME_THRESHOLD_MULTIPLIER = 1.5"

definition CLUSTERING_DISTANCE :: real where
  "CLUSTERING_DISTANCE = 0.001"

definition MIN_ZONE_STRENGTH :: real where
  "MIN_ZONE_STRENGTH = 0.3"

text \<open>
  The test \<open>distance <= CLUSTERING_DISTANCE\<close> of the merge loop, with
  \<open>distance = Math.abs(next.price - current.price) / current.price\<close>. When
  \<open>current.price\<close> is 0 the quotient is \<open>Infinity\<close> or \<open>NaN\<close> and the comparison is
  false.
\<close>

definition withinClusteringDistance :: "PressureZone \<Rightarrow> PressureZone \<Rightarrow> bool" where
  "withinClusteringDistance current nxt =
     (zone_price current \<noteq> 0 \<and>
      \<bar>zone_price nxt - zone_price current\<bar> / zone_price current \<le> CLUSTERING_DISTANCE)"

text \<open>
  The \<open>for\<close> loop of \<open>mergeNearbyZones\<close>: \<open>merged\<close> and \<open>current\<close> are its two
  variables, the list is \<open>zones[i..]\<close>. A merge whose \<open>totalVolume\<close> is 0 divides by
  zero: the weighted price is then not a finite number and the model returns \<open>None\<close>.
\<close>

fun mergeLoop ::
  "PressureZone list \<Rightarrow> PressureZone \<Rightarrow> PressureZone list \<Rightarrow> PressureZone list option" where
  "mergeLoop merged current [] = Some (merged @ [current])"
| "mergeLoop merged current (nxt # rest) =
     (if withinClusteringDistance current nxt \<and> zone_type current = zone_type nxt
      then
        let totalVolume = volume current + volume nxt
        in if totalVolume = 0 then None
           else
             let weightedPrice =
                   (zone_price current * volume current + zone_price nxt * volume nxt)
                     / totalVolume
             in mergeLoop merged
                  \<lparr>zone_price = weightedPrice,
                   intensity = max (intensity current) (intensity nxt),
                   zone_type = zone_type current,
                   volume = totalVolume\<rparr> rest
      else mergeLoop (merged @ [current]) nxt rest)"

text \<open>
  \<open>zones.sort((a, b) => a.price - b.price)\<close> is a stable sort by ascending price, which is
  what \<^const>\<open>sort_key\<close> computes.
\<close>

definition mergeNearbyZones :: "PressureZone list \<Rightarrow> PressureZone list option" where
  "mergeNearbyZones zones =
     (if length zones \<le> 1 then Some zones
      else
        let sorted_zones = sort_key zone_price zones
        in mergeLoop [] (sorted_zones ! 0) (drop 1 sorted_zones))"

subsection \<open>mergeNearbyZones with rounding\<close>

text \<open>
  An operation on doubles computes the exact result and rounds it. A \<open>rounding\<close> maps
  the exact result to the number that is stored, or to \<open>None\<close> where the stored value is
  not finite (overflow). Exact arithmetic is the rounding \<^const>\<open>Some\<close>.
\<close>

type_synonym rounding = "real \<Rightarrow> real option"

text \<open>
  IEEE 754 binary64, round to nearest, ties to even. \<open>binade fuel x\<close> is the exponent
  \<open>b\<close> with \<open>2^b <= x < 2^(b+1)\<close>, searched for over at most \<open>fuel\<close> binades (the
  exponents of doubles lie between \<open>-1074\<close> and \<open>1023\<close>). A number is rounded to a multiple
  of its unit in the last place, which is \<open>2^(b-52)\<close> and never less than \<open>2^(-1074)\<close>
  (gradual underflow); a result that rounds to \<open>2^1024\<close> or more is \<open>Infinity\<close>. The sign
  of a zero is not modelled.
\<close>

fun binade :: "nat \<Rightarrow> real \<Rightarrow> int" where
  "binade 0 x = 0"
| "binade (Suc fuel) x =
     (if 2 \<le> x then binade fuel (x / 2) + 1
      else if x < 1 then binade fuel (x * 2) - 1
      else 0)"

definition roundTiesToEven :: "real \<Rightarrow> int" where
  "roundTiesToEven x =
     (let n = \<lfloor>x\<rfloor>; r = x - of_int n
      in if r < 1 / 2 then n
         else if 1 / 2 < r then n + 1
         else if even n then n else n + 1)"

definition scale2 :: "int \<Rightarrow> real" where
  "scale2 e = (if 0 \<le> e then 2 ^ nat e else 1 / 2 ^ nat (- e))"

definition round64 :: rounding where
  "round64 x =
     (let e = max (binade 1100 \<bar>x\<bar> - 52) (- 1074);
          y = of_int (roundTiesToEven (\<bar>x\<bar> / scale2 e)) * scale2 e
      in if y < 2 ^ 1024 then Some (if x < 0 then - y else y) else None)"

text \<open>
  The test \<open>distance <= CLUSTERING_DISTANCE\<close> with every operation rounded: the
  difference, the quotient, and the literal \<open>0.001\<close>, which denotes the double nearest to
  it. An infinite difference or quotient has the sign of \<open>current.price\<close> after the
  division, and \<open>-Infinity <= 0.001\<close> is true; with \<open>current.price\<close> 0 the quotient is
  \<open>Infinity\<close> or \<open>NaN\<close> and the comparison is false. (A rounding under which the
  literal itself is not finite puts \<open>Infinity\<close> on the right of the comparison.)
\<close>

definition withinClusteringDistance_rounded ::
  "rounding \<Rightarrow> PressureZone \<Rightarrow> PressureZone \<Rightarrow> bool" where
  "withinClusteringDistance_rounded rnd current nxt =
     (case rnd (zone_price nxt - zone_price current) of
        None \<Rightarrow> zone_price current < 0
      | Some difference \<Rightarrow>
          if zone_price current = 0 then False
          else
            (case rnd (\<bar>difference\<bar> / zone_price current) of
               None \<Rightarrow> zone_price current < 0
             | Some distance \<Rightarrow>
                 (case rnd CLUSTERING_DISTANCE of
                    None \<Rightarrow> True
                  | Some limit \<Rightarrow> distance \<le> limit)))"

text \<open>
  The loop of \<open>mergeNearbyZones\<close> with every operation rounded: \<open>totalVolume\<close>, the two
  products, their sum and the quotient. When one of them is not finite, or
  \<open>totalVolume\<close> is 0, the merged zone holds a value that is not a finite number and the
  model returns \<open>None\<close>. \<open>Math.max\<close> does not round.
\<close>

fun mergeLoop_rounded ::
  "rounding \<Rightarrow> PressureZone list \<Rightarrow> PressureZone \<Rightarrow> PressureZone list
     \<Rightarrow> PressureZone list option" where
  "mergeLoop_rounded rnd merged current [] = Some (merged @ [current])"
| "mergeLoop_rounded rnd merged current (nxt # rest) =
     (if withinClusteringDistance_rounded rnd current nxt \<and> zone_type current = zone_type nxt
      then
        (case rnd (volume current + volume nxt) of
           None \<Rightarrow> None
         | Some totalVolume \<Rightarrow>
             if totalVolume = 0 then None
             else
               (case (rnd (zone_price current * volume current),
                      rnd (zone_price nxt * volume nxt)) of
                  (Some currentPart, Some nextPart) \<Rightarrow>
                    (case rnd (currentPart + nextPart) of
                       None \<Rightarrow> None
                     | Some weightedSum \<Rightarrow>
                         (case rnd (weightedSum / totalVolume) of
                            None \<Rightarrow> None
                          | Some weightedPrice \<Rightarrow>
                              mergeLoop_rounded rnd merged
                                \<lparr>zone_price = weightedPrice,
                                 intensity = max (intensity current) (intensity nxt),
                                 zone_type = zone_type current,
                                 volume = totalVolume\<rparr> rest))
                | _ \<Rightarrow> None))
      else mergeLoop_rounded rnd (merged @ [current]) nxt rest)"

text \<open>
  In doubles the comparator \<open>a.price - b.price\<close> of the sort has the sign of the exact
  difference (the difference of two distinct doubles is never rounded to zero), so the
  sort is the same stable sort by ascending price.
\<close>

definition mergeNearbyZones_rounded ::
  "rounding \<Rightarrow> PressureZone list \<Rightarrow> PressureZone list option" where
  "mergeNearbyZones_rounded rnd zones =
     (if length zones \<le> 1 then Some zones
      else
        let sorted_zones = sort_key zone_price zones
        in mergeLoop_rounded rnd [] (sorted_zones ! 0) (drop 1 sorted_zones))"

subsection \<open>findVolumeSpikes\<close>

text \<open>
  The \<open>for\<close> loop of \<open>findVolumeSpikes\<close>, from index \<open>i\<close> on, with the zones pushed so
  far. Inside the loop \<open>current.quantity > threshold\<close> holds; so when \<open>avgVolume * 3\<close> is
  0 the threshold is 0, the quantity is positive, the quotient is \<open>+Infinity\<close> and
  \<open>Math.min\<close> returns 1.
\<close>

function spikeLoop ::
  "OrderBookLevel list \<Rightarrow> zone_type \<Rightarrow> real \<Rightarrow> real \<Rightarrow> nat \<Rightarrow> PressureZone list
     \<Rightarrow> PressureZone list" where
  "spikeLoop levels ty avgVolume threshold i zones =
     (if i < length levels - 1
      then
        let current = levels ! i;
            prev = levels ! (i - 1);
            nxt = levels ! (i + 1)
        in if quantity current > threshold
              \<and> quantity current > quantity prev * 1.3
              \<and> quantity current > quantity nxt * 1.3
           then
             let intensity =
                   (if avgVolume * 3 = 0 then 1
                    else min (quantity current / (avgVolume * 3)) 1)
             in if intensity \<ge> MIN_ZONE_STRENGTH
                then spikeLoop levels ty avgVolume threshold (i + 1)
                       (zones @ [\<lparr>zone_price = price current, intensity = intensity,
                                  zone_type = ty, volume = quantity current\<rparr>])
                else spikeLoop levels ty avgVolume threshold (i + 1) zones
           else spikeLoop levels ty avgVolume threshold (i + 1) zones
      else zones)"
  by pat_completeness auto

termination
  by (relation "measure (\<lambda>(levels, ty, avgVolume, threshold, i, zones). length levels - 1 - i)")
    auto

declare spikeLoop.simps [simp del]

definition findVolumeSpikes ::
  "OrderBookLevel list \<Rightarrow> zone_type \<Rightarrow> PressureZone list option" where
  "findVolumeSpikes levels ty =
     (if length levels < 3 then Some []
      else
        let avgVolume =
              foldl (\<lambda>sum level. sum + quantity level) 0 levels / real (length levels);
            threshold = avgVolume * VOLUME_THRESHOLD_MULTIPLIER
        in mergeNearbyZones (spikeLoop levels ty avgVolume threshold 1 []))"

subsection \<open>combineOrderBookLevels and analyzePressureZones\<close>

text \<open>\<open>Math.round\<close> rounds to the nearest integer, a half towards plus infinity.\<close>

definition mathRound :: "real \<Rightarrow> real" where
  "mathRound x = of_int \<lfloor>x + 1 / 2\<rfloor>"

text \<open>
  A JavaScript \<open>Map\<close> from numbers to numbers keeps its keys in insertion order; it is an
  association list, \<open>set\<close> is \<^const>\<open>AList.update\<close> and \<open>get(k) || 0\<close> reads 0 for
  a missing key.
\<close>

definition addLevel :: "(real \<times> real) list \<Rightarrow> OrderBookLevel \<Rightarrow> (real \<times> real) list" where
  "addLevel levelMap level =
     (let roundedPrice = mathRound (price level * 100) / 100
      in AList.update roundedPrice
           ((case map_of levelMap roundedPrice of None \<Rightarrow> 0 | Some q \<Rightarrow> q) + quantity level)
           levelMap)"

text \<open>\<open>now\<close> is the reading of \<open>Date.now()\<close>.\<close>

definition combineOrderBookLevels ::
  "real \<Rightarrow> OrderBookData list \<Rightarrow> OrderBookLevel list \<times> OrderBookLevel list" where
  "combineOrderBookLevels now orderBookData =
     (let bidMap = foldl (\<lambda>m data. foldl addLevel m (bids data)) [] orderBookData;
          askMap = foldl (\<lambda>m data. foldl addLevel m (asks data)) [] orderBookData;
          toLevel = (\<lambda>(p, q). \<lparr>price = p, quantity = q, total = q, timestamp = now\<rparr>)
      in (sort_key (\<lambda>l. - price l) (map toLevel bidMap),
          sort_key price (map toLevel askMap)))"

definition analyzePressureZones ::
  "real \<Rightarrow> OrderBookData list \<Rightarrow> PressureZone list option" where
  "analyzePressureZones now orderBookData =
     (if length orderBookData = 0 then Some []
      else
        let allLevels = combineOrderBookLevels now orderBookData
        in case findVolumeSpikes (fst allLevels) support of
             None \<Rightarrow> None
           | Some supportZones \<Rightarrow>
               (case findVolumeSpikes (snd allLevels) resistance of
                  None \<Rightarrow> None
                | Some resistanceZones \<Rightarrow>
                    Some (sort_key (\<lambda>z. - intensity z) (supportZones @ resistanceZones))))"

subsection \<open>calculateImbalance\<close>

definition calculateImbalance :: "OrderBookData \<Rightarrow> real" where
  "calculateImbalance orderBookData =
     (let totalBidVolume = foldl (\<lambda>sum level. sum + quantity level) 0 (bids orderBookData);
          totalAskVolume = foldl (\<lambda>sum level. sum + quantity level) 0 (asks orderBookData);
          totalVolume = totalBidVolume + totalAskVolume
      in if totalVolume = 0 then 0
         else (totalBidVolume - totalAskVolume) / totalVolume)"

subsection \<open>getSpreadAnalysis\<close>

text \<open>
  \<open>spread / midPrice\<close> is a division by zero when the best bid and the best ask
  cancel; JavaScript then puts \<open>NaN\<close> or an infinity into \<open>spreadPercent\<close>, and the model
  returns \<open>None\<close>.
\<close>

definition getSpreadAnalysis :: "OrderBookData \<Rightarrow> SpreadAnalysis option" where
  "getSpreadAnalysis orderBookData =
     (if length (bids orderBookData) = 0 \<or> length (asks orderBookData) = 0
      then Some \<lparr>spread = 0, spreadPercent = 0, midPrice = 0, tightness = normal\<rparr>
      else
        let bestBid = price (bids orderBookData ! 0);
            bestAsk = price (asks orderBookData ! 0);
            spread = bestAsk - bestBid;
            midPrice = (bestBid + bestAsk) / 2
        in if midPrice = 0 then None
           else
             let spreadPercent = (spread / midPrice) * 100
             in Some \<lparr>spread = spread, spreadPercent = spreadPercent, midPrice = midPrice,
                  tightness = (if spreadPercent < 0.05 then tight
                               else if spreadPercent > 0.2 then wide
                               else normal)\<rparr>)"

section \<open>OrderBookService (services/multiVenueService.ts)\<close>

subsection \<open>generateMockOrderBook\<close>

text \<open>\<open>String.prototype.includes\<close>: the second string occurs in the first.\<close>

fun str_includes :: "string \<Rightarrow> string \<Rightarrow> bool" where
  "str_includes [] sub = (sub = [])"
| "str_includes (c # cs) sub = (take (length sub) (c # cs) = sub \<or> str_includes cs sub)"

text \<open>
  \<open>parseFloat(x.toFixed(n))\<close>: \<open>x\<close> rounded to \<open>n\<close> decimals, a half away from zero.
\<close>

definition toFixed :: "nat \<Rightarrow> real \<Rightarrow> real" where
  "toFixed n x = sgn x * of_int \<lfloor>\<bar>x\<bar> * 10 ^ n + 1 / 2\<rfloor> / 10 ^ n"

text \<open>
  The \<open>for\<close> loop of \<open>generateMockOrderBook\<close>. \<open>random\<close> lists the values that the
  calls of \<open>Math.random()\<close> inside the loop return, in the order of the calls (four in each
  round), and \<open>now\<close> is the reading of \<open>Date.now()\<close>.
\<close>

function mockLoop ::
  "(nat \<Rightarrow> real) \<Rightarrow> real \<Rightarrow> real \<Rightarrow> real \<Rightarrow> nat
     \<Rightarrow> OrderBookLevel list \<Rightarrow> OrderBookLevel list \<Rightarrow> real \<Rightarrow> real
     \<Rightarrow> OrderBookLevel list \<times> OrderBookLevel list" where
  "mockLoop random now basePrice spreadWidth i bidLevels askLevels totalBid totalAsk =
     (if i < 20
      then
        let bidPrice = toFixed 2 (basePrice - spreadWidth / 2 - real i * (2 + random (4 * i) * 3));
            askPrice = toFixed 2 (basePrice + spreadWidth / 2 + real i * (2 + random (4 * i + 1) * 3));
            bidQty = toFixed 4 (random (4 * i + 2) * 3 + 0.05 * exp (- real i * 0.2));
            askQty = toFixed 4 (random (4 * i + 3) * 3 + 0.05 * exp (- real i * 0.2));
            totalBid2 = totalBid + bidQty;
            totalAsk2 = totalAsk + askQty
        in mockLoop random now basePrice spreadWidth (i + 1)
             (bidLevels @ [\<lparr>price = bidPrice, quantity = bidQty,
                             total = toFixed 4 totalBid2, timestamp = now\<rparr>])
             (askLevels @ [\<lparr>price = askPrice, quantity = askQty,
                             total = toFixed 4 totalAsk2, timestamp = now\<rparr>])
             totalBid2 totalAsk2
      else (bidLevels, askLevels))"
  by pat_completeness auto
termination
  by (relation "measure (\<lambda>(random, now, basePrice, spreadWidth, i, rest). 20 - i)") auto

declare mockLoop.simps [simp del]

text \<open>
  The base price draws a random number only for a symbol that includes \<open>BTC\<close>; the spread
  draws the next one; the loop draws the rest. Both sorts are stable.
\<close>

definition generateMockOrderBook ::
  "(nat \<Rightarrow> real) \<Rightarrow> real \<Rightarrow> string \<Rightarrow> string \<Rightarrow> OrderBookData" where
  "generateMockOrderBook random now symbolName venueName =
     (let btc = str_includes symbolName ''BTC'';
          basePrice = (if btc then 45000 + random 0 * 10000 else 50000);
          k = (if btc then 1 else 0);
          spread = 2 + random k * 8;
          levels = mockLoop (\<lambda>j. random (k + 1 + j)) now basePrice spread 0 [] [] 0 0
      in \<lparr>bids = sort_key (\<lambda>l. - price l) (fst levels),
          asks = sort_key price (snd levels),
          symbol = symbolName,
          venue = venueName @ '' (Demo)'',
          data_timestamp = now\<rparr>)"

subsection \<open>parseBinanceData\<close>

text \<open>
  The payload after \<open>JSON.parse\<close>: the depth object itself or the stream wrapper around
  it (\<open>data.data && data.stream\<close>). A side is \<open>None\<close> when the field is missing or not an
  array; its entries are the \<open>[priceStr, quantityStr]\<close> pairs of the venue's depth format.
\<close>

record depth_payload =
  payload_bids :: "(string \<times> string) list option"
  payload_asks :: "(string \<times> string) list option"

datatype binance_data = DirectDepth depth_payload | StreamWrapper depth_payload

text \<open>
  One of the two \<open>for ... of\<close> loops. \<open>parseFloat\<close> is a parameter: it returns \<open>None\<close>
  where JavaScript's returns \<open>NaN\<close>. A pair that fails the validation is skipped.
\<close>

fun parseLevels ::
  "(string \<Rightarrow> real option) \<Rightarrow> real \<Rightarrow> OrderBookLevel list \<Rightarrow> real
     \<Rightarrow> (string \<times> string) list \<Rightarrow> OrderBookLevel list" where
  "parseLevels parseFloat now levels totalVol [] = levels"
| "parseLevels parseFloat now levels totalVol ((priceStr, quantityStr) # rest) =
     (case (parseFloat priceStr, parseFloat quantityStr) of
        (Some p, Some qty) \<Rightarrow>
          if p \<le> 0 \<or> qty \<le> 0
          then parseLevels parseFloat now levels totalVol rest
          else parseLevels parseFloat now
                 (levels @ [\<lparr>price = p, quantity = qty, total = totalVol + qty,
                             timestamp = now\<rparr>])
                 (totalVol + qty) rest
      | _ \<Rightarrow> parseLevels parseFloat now levels totalVol rest)"

definition parseBinanceData ::
  "(string \<Rightarrow> real option) \<Rightarrow> real \<Rightarrow> binance_data \<Rightarrow> string \<Rightarrow> string
     \<Rightarrow> OrderBookData option" where
  "parseBinanceData parseFloat now data symbolName venueName =
     (let orderBookData = (case data of DirectDepth d \<Rightarrow> d | StreamWrapper d \<Rightarrow> d)
      in case (payload_bids orderBookData, payload_asks orderBookData) of
           (Some rawBids, Some rawAsks) \<Rightarrow>
             if length rawBids = 0 \<and> length rawAsks = 0 then None
             else
               let bidLevels = parseLevels parseFloat now [] 0 rawBids;
                   askLevels = parseLevels parseFloat now [] 0 rawAsks
               in if length bidLevels = 0 \<and> length askLevels = 0 then None
                  else Some \<lparr>bids = bidLevels, asks = askLevels, symbol = symbolName, venue = venueName,
                         data_timestamp = now\<rparr>
         | _ \<Rightarrow> None)"

subsection \<open>State of the service and of the runtime around it\<close>

text \<open>
  A listener is known by its identity. \<open>wsConnections\<close> holds sockets and, under the key
  \<open>"<key>-interval"\<close>, the handle that \<open>setInterval\<close> returned. The runtime keeps every
  socket, timer and unsubscribe closure that was ever created; each is named by its
  position in the list. A socket remembers what its four event handlers captured. A timer
  is pending until it is cleared or, for a timeout, fires. \<open>delivered\<close> logs every call of
  a listener, and \<open>thrown\<close> every exception that leaves a method of the service.
\<close>

type_synonym callback = nat

datatype connection = Socket nat | IntervalHandle nat

datatype ready_state = CONNECTING | OPEN | CLOSING | CLOSED

record websocket =
  ws_venue :: string
  ws_symbol :: string
  ws_url :: string
  readyState :: ready_state
  connectionTimeout :: nat

datatype timer_task =
    ConnectionTimeout nat string string
  | Reconnect string string string string
  | MockFeed string string

record timer =
  task :: timer_task
  delay :: nat
  repeating :: bool
  pending :: bool

datatype js_error = TypeError

record unsubscribe_handle =
  h_venue :: string
  h_symbol :: string
  h_callback :: callback
  invoked :: bool

record OrderBookService =
  wsConnections :: "string \<rightharpoonup> connection"
  subscribers :: "string \<rightharpoonup> callback list"
  reconnectAttempts :: "string \<rightharpoonup> nat"
  sockets :: "websocket list"
  timers :: "timer list"
  handles :: "unsubscribe_handle list"
  delivered :: "(string \<times> callback \<times> OrderBookData) list"
  thrown :: "js_error list"

definition newService :: OrderBookService where
  "newService =
     \<lparr>wsConnections = Map.empty, subscribers = Map.empty, reconnectAttempts = Map.empty,
      sockets = [], timers = [], handles = [], delivered = [], thrown = []\<rparr>"

definition maxReconnectAttempts :: nat where
  "maxReconnectAttempts = 5"

definition reconnectDelay :: nat where
  "reconnectDelay = 1000"

definition channelKey :: "string \<Rightarrow> string \<Rightarrow> string" where
  "channelKey venueName symbolName = venueName @ ''-'' @ symbolName"

subsection \<open>Runtime primitives\<close>

text \<open>
  \<open>setTimeout\<close> and \<open>setInterval\<close> append a pending timer; the handle they return is
  the length of the timer list before the call.
\<close>

definition setTimeout :: "timer_task \<Rightarrow> nat \<Rightarrow> OrderBookService \<Rightarrow> OrderBookService" where
  "setTimeout tsk ms s =
     s\<lparr>timers := timers s @ [\<lparr>task = tsk, delay = ms, repeating = False, pending = True\<rparr>]\<rparr>"

definition setInterval :: "timer_task \<Rightarrow> nat \<Rightarrow> OrderBookService \<Rightarrow> OrderBookService" where
  "setInterval tsk ms s =
     s\<lparr>timers := timers s @ [\<lparr>task = tsk, delay = ms, repeating = True, pending = True\<rparr>]\<rparr>"

text \<open>\<open>clearTimeout\<close> and \<open>clearInterval\<close>.\<close>

definition clearTimer :: "nat \<Rightarrow> OrderBookService \<Rightarrow> OrderBookService" where
  "clearTimer t s =
     (if t < length (timers s)
      then s\<lparr>timers := (timers s)[t := (timers s ! t)\<lparr>pending := False\<rparr>]\<rparr>
      else s)"

text \<open>
  \<open>WebSocket.close()\<close> starts the closing handshake; the \<open>close\<close> event arrives later,
  as an event of its own.
\<close>

definition closeSocket :: "nat \<Rightarrow> OrderBookService \<Rightarrow> OrderBookService" where
  "closeSocket w s =
     (if w < length (sockets s)
         \<and> (readyState (sockets s ! w) = CONNECTING \<or> readyState (sockets s ! w) = OPEN)
      then s\<lparr>sockets := (sockets s)[w := (sockets s ! w)\<lparr>readyState := CLOSING\<rparr>]\<rparr>
      else s)"

subsection \<open>Methods of the service\<close>

definition notifySubscribers ::
  "string \<Rightarrow> OrderBookData \<Rightarrow> OrderBookService \<Rightarrow> OrderBookService" where
  "notifySubscribers key data s =
     (case subscribers s key of
        None \<Rightarrow> s
      | Some callbacks \<Rightarrow>
          s\<lparr>delivered := delivered s @ map (\<lambda>callback. (key, callback, data)) callbacks\<rparr>)"

definition startMockDataFeed :: "string \<Rightarrow> string \<Rightarrow> OrderBookService \<Rightarrow> OrderBookService" where
  "startMockDataFeed venueName symbolName s =
     (let key = channelKey venueName symbolName;
          interval = length (timers s);
          s1 = setInterval (MockFeed venueName symbolName) 3000 s
      in s1\<lparr>wsConnections := (wsConnections s1)(key @ ''-interval'' \<mapsto> IntervalHandle interval)\<rparr>)"

text \<open>
  \<open>connectToWebSocket\<close>. Only a socket has a \<open>close\<close> function. \<open>new WebSocket(url)\<close> is
  taken to return a socket in state \<open>CONNECTING\<close>.
\<close>

definition connectToWebSocket ::
  "string \<Rightarrow> string \<Rightarrow> string \<Rightarrow> OrderBookService \<Rightarrow> OrderBookService" where
  "connectToWebSocket venueName symbolName url s =
     (let key = channelKey venueName symbolName;
          s1 = (case wsConnections s key of
                  None \<Rightarrow> s
                | Some existingWs \<Rightarrow>
                    (case existingWs of Socket w \<Rightarrow> closeSocket w s | IntervalHandle t \<Rightarrow> s)
                      \<lparr>wsConnections := (wsConnections s)(key := None)\<rparr>);
          ws = length (sockets s1);
          connectionTimeoutId = length (timers s1);
          s2 = s1\<lparr>sockets := sockets s1 @
                 [\<lparr>ws_venue = venueName, ws_symbol = symbolName, ws_url = url, readyState = CONNECTING,
                   connectionTimeout = connectionTimeoutId\<rparr>]\<rparr>;
          s3 = setTimeout (ConnectionTimeout ws venueName symbolName) 10000 s2
      in s3\<lparr>wsConnections := (wsConnections s3)(key \<mapsto> Socket ws)\<rparr>)"

definition toLowerCase :: "string \<Rightarrow> string" where
  "toLowerCase str =
     map (\<lambda>c. let n = of_char c :: nat in if 65 \<le> n \<and> n \<le> 90 then char_of (n + 32) else c) str"

definition connectToBinance :: "string \<Rightarrow> OrderBookService \<Rightarrow> OrderBookService" where
  "connectToBinance symbolName s =
     (let wsUrl = ''wss://stream.binance.com:9443/ws/'' @ toLowerCase symbolName @ ''@depth20''
      in connectToWebSocket ''binance'' symbolName wsUrl s)"

definition handleReconnect ::
  "string \<Rightarrow> string \<Rightarrow> string \<Rightarrow> string \<Rightarrow> OrderBookService \<Rightarrow> OrderBookService" where
  "handleReconnect key venueName symbolName url s =
     (let attempts = (case reconnectAttempts s key of None \<Rightarrow> 0 | Some n \<Rightarrow> n)
      in if attempts < maxReconnectAttempts
         then
           let s1 = s\<lparr>reconnectAttempts := (reconnectAttempts s)(key \<mapsto> attempts + 1)\<rparr>;
               ms = min (reconnectDelay * 2 ^ attempts) 30000
           in setTimeout (Reconnect key venueName symbolName url) ms s1
         else startMockDataFeed venueName symbolName s)"

text \<open>
  \<open>disconnect\<close>. \<open>ws.close()\<close> is called on whatever the map holds under the key: on
  an interval handle, which has no \<open>close\<close>, this is a \<open>TypeError\<close> that ends the
  method before it changes anything. \<open>clearInterval\<close> of a value that is no timer handle
  does nothing, and the entry is deleted all the same.
\<close>

definition disconnect :: "string \<Rightarrow> string \<Rightarrow> OrderBookService \<Rightarrow> OrderBookService" where
  "disconnect venueName symbolName s =
     (let key = channelKey venueName symbolName
      in case wsConnections s key of
           Some (IntervalHandle t) \<Rightarrow> s\<lparr>thrown := thrown s @ [TypeError]\<rparr>
         | ws \<Rightarrow>
             let s1 = (case ws of
                         Some (Socket w) \<Rightarrow>
                           (closeSocket w s)\<lparr>wsConnections := (wsConnections s)(key := None)\<rparr>
                       | _ \<Rightarrow> s);
                 s2 = (case wsConnections s1 (key @ ''-interval'') of
                         None \<Rightarrow> s1
                       | Some interval \<Rightarrow>
                           (case interval of
                              IntervalHandle t \<Rightarrow> clearTimer t s1
                            | Socket w \<Rightarrow> s1)
                             \<lparr>wsConnections := (wsConnections s1)(key @ ''-interval'' := None)\<rparr>)
             in s2\<lparr>subscribers := (subscribers s2)(key := None),
                   reconnectAttempts := (reconnectAttempts s2)(key := None)\<rparr>)"

text \<open>
  \<open>subscribe\<close>. The set of listeners is kept in insertion order. The closure it returns is
  recorded as a new handle; \<open>unsubscribe\<close> below is the body of that closure.
\<close>

definition subscribe ::
  "string \<Rightarrow> string \<Rightarrow> callback \<Rightarrow> OrderBookService \<Rightarrow> OrderBookService" where
  "subscribe venueName symbolName callback s =
     (let key = channelKey venueName symbolName;
          listeners = (case subscribers s key of None \<Rightarrow> [] | Some cs \<Rightarrow> cs);
          s1 = s\<lparr>subscribers := (subscribers s)
                 (key \<mapsto> (if callback \<in> set listeners then listeners
                            else listeners @ [callback]))\<rparr>;
          s2 = (if wsConnections s1 key = None
                then (if venueName = ''binance'' then connectToBinance symbolName s1
                      else startMockDataFeed venueName symbolName s1)
                else s1)
      in s2\<lparr>handles := handles s2 @
             [\<lparr>h_venue = venueName, h_symbol = symbolName, h_callback = callback, invoked = False\<rparr>]\<rparr>)"

definition unsubscribe ::
  "string \<Rightarrow> string \<Rightarrow> callback \<Rightarrow> OrderBookService \<Rightarrow> OrderBookService" where
  "unsubscribe venueName symbolName callback s =
     (let key = channelKey venueName symbolName;
          s1 = (case subscribers s key of
                  None \<Rightarrow> s
                | Some cs \<Rightarrow> s\<lparr>subscribers := (subscribers s)(key \<mapsto> removeAll callback cs)\<rparr>)
      in if (case subscribers s1 key of None \<Rightarrow> False | Some cs \<Rightarrow> length cs = 0)
         then disconnect venueName symbolName s1
         else s1)"

subsection \<open>Events\<close>

text \<open>
  What can happen to the service: a call of \<open>subscribe\<close>, a call of the \<open>n\<close>-th
  unsubscribe closure, the four events of a socket, and a timer that fires. A message
  carries the outcome of \<open>JSON.parse\<close> (\<open>None\<close> when it throws) and the clock; a firing
  timer carries the random numbers and the clock that the mock generator would read.
  An event for a socket or a timer that does not exist, or for a timer that is no longer
  pending, does nothing.
\<close>

datatype event =
    Subscribe string string callback
  | InvokeUnsubscribe nat
  | WsOpen nat
  | WsMessage nat "binance_data option" real
  | WsClose nat nat
  | WsError nat
  | TimerFires nat "nat \<Rightarrow> real" real

definition ws_onopen :: "nat \<Rightarrow> OrderBookService \<Rightarrow> OrderBookService" where
  "ws_onopen w s =
     (let sock = sockets s ! w;
          key = channelKey (ws_venue sock) (ws_symbol sock);
          s1 = clearTimer (connectionTimeout sock) s
      in s1\<lparr>reconnectAttempts := (reconnectAttempts s1)(key \<mapsto> 0)\<rparr>)"

definition ws_onmessage ::
  "(string \<Rightarrow> real option) \<Rightarrow> nat \<Rightarrow> binance_data option \<Rightarrow> real
     \<Rightarrow> OrderBookService \<Rightarrow> OrderBookService" where
  "ws_onmessage parseFloat w parsed now s =
     (let sock = sockets s ! w;
          key = channelKey (ws_venue sock) (ws_symbol sock)
      in case parsed of
           None \<Rightarrow> s
         | Some data \<Rightarrow>
             (case parseBinanceData parseFloat now data (ws_symbol sock) (ws_venue sock) of
                None \<Rightarrow> s
              | Some orderBookData \<Rightarrow> notifySubscribers key orderBookData s))"

definition ws_onclose :: "nat \<Rightarrow> nat \<Rightarrow> OrderBookService \<Rightarrow> OrderBookService" where
  "ws_onclose w code s =
     (let sock = sockets s ! w;
          key = channelKey (ws_venue sock) (ws_symbol sock);
          s1 = clearTimer (connectionTimeout sock) s
      in if code \<noteq> 1000
         then handleReconnect key (ws_venue sock) (ws_symbol sock) (ws_url sock) s1
         else s1)"

definition ws_onerror :: "nat \<Rightarrow> OrderBookService \<Rightarrow> OrderBookService" where
  "ws_onerror w s =
     (let sock = sockets s ! w;
          s1 = clearTimer (connectionTimeout sock) s
      in startMockDataFeed (ws_venue sock) (ws_symbol sock) s1)"

text \<open>
  What the callback of a timer does. The retry callback calls \<open>connectToWebSocket\<close>
  inside \<open>try\<close>; the model's \<open>connectToWebSocket\<close> does not throw, so the \<open>catch\<close>
  branch is never taken.
\<close>

definition runTimer ::
  "timer_task \<Rightarrow> (nat \<Rightarrow> real) \<Rightarrow> real \<Rightarrow> OrderBookService \<Rightarrow> OrderBookService" where
  "runTimer tsk random now s =
     (case tsk of
        ConnectionTimeout w venueName symbolName \<Rightarrow>
          if w < length (sockets s) \<and> readyState (sockets s ! w) = CONNECTING
          then startMockDataFeed venueName symbolName (closeSocket w s)
          else s
      | Reconnect key venueName symbolName url \<Rightarrow> connectToWebSocket venueName symbolName url s
      | MockFeed venueName symbolName \<Rightarrow>
          notifySubscribers (channelKey venueName symbolName) (generateMockOrderBook random now symbolName venueName) s)"

definition setReadyState :: "nat \<Rightarrow> ready_state \<Rightarrow> OrderBookService \<Rightarrow> OrderBookService" where
  "setReadyState w st s = s\<lparr>sockets := (sockets s)[w := (sockets s ! w)\<lparr>readyState := st\<rparr>]\<rparr>"

definition step :: "(string \<Rightarrow> real option) \<Rightarrow> event \<Rightarrow> OrderBookService \<Rightarrow> OrderBookService" where
  "step parseFloat e s =
     (case e of
        Subscribe venueName symbolName callback \<Rightarrow> subscribe venueName symbolName callback s
      | InvokeUnsubscribe n \<Rightarrow>
          if n < length (handles s)
          then
            let h = handles s ! n
            in unsubscribe (h_venue h) (h_symbol h) (h_callback h)
                 (s\<lparr>handles := (handles s)[n := h\<lparr>invoked := True\<rparr>]\<rparr>)
          else s
      | WsOpen w \<Rightarrow> if w < length (sockets s) then ws_onopen w (setReadyState w OPEN s) else s
      | WsMessage w parsed now \<Rightarrow>
          if w < length (sockets s) then ws_onmessage parseFloat w parsed now s else s
      | WsClose w code \<Rightarrow>
          if w < length (sockets s) then ws_onclose w code (setReadyState w CLOSED s) else s
      | WsError w \<Rightarrow> if w < length (sockets s) then ws_onerror w s else s
      | TimerFires t random now \<Rightarrow>
          if t < length (timers s) \<and> pending (timers s ! t)
          then
            let tm = timers s ! t;
                s1 = (if repeating tm then s else clearTimer t s)
            in runTimer (task tm) random now s1
          else s)"

definition run :: "(string \<Rightarrow> real option) \<Rightarrow> event list \<Rightarrow> OrderBookService \<Rightarrow> OrderBookService" where
  "run parseFloat events s = foldl (\<lambda>st e. step parseFloat e st) s events"

section \<open>Reference formulations\<close>

text \<open>
  The definitions of this section are not translations of code. They restate, in the
  words of the specification, what the loops of the analyzer are meant to compute, and the
  properties below compare the translated code with them.
\<close>

subsection \<open>Spike detection\<close>

text \<open>The mean quantity over all levels of one side.\<close>

definition spec_avg :: "OrderBookLevel list \<Rightarrow> real" where
  "spec_avg levels = sum_list (map quantity levels) / real (length levels)"

text \<open>
  Level \<open>i\<close> is a candidate spike: its quantity exceeds \<open>avg * 1.5\<close> and 1.3 times the
  quantity of both neighbours.
\<close>

definition spec_candidate :: "OrderBookLevel list \<Rightarrow> nat \<Rightarrow> bool" where
  "spec_candidate levels i =
     (quantity (levels ! i) > spec_avg levels * 1.5
      \<and> quantity (levels ! i) > 1.3 * quantity (levels ! (i - 1))
      \<and> quantity (levels ! i) > 1.3 * quantity (levels ! (i + 1)))"

text \<open>
  The candidate's intensity \<open>min(quantity[i] / (avg * 3), 1)\<close>. For a candidate with
  \<open>avg = 0\<close> the quantity is positive, the quotient is \<open>+Infinity\<close> and the minimum is 1.
\<close>

definition spec_intensity :: "OrderBookLevel list \<Rightarrow> nat \<Rightarrow> real" where
  "spec_intensity levels i =
     (if spec_avg levels = 0 then 1
      else min (quantity (levels ! i) / (spec_avg levels * 3)) 1)"

text \<open>The zone emitted for level \<open>i\<close>.\<close>

definition spec_zone :: "OrderBookLevel list \<Rightarrow> zone_type \<Rightarrow> nat \<Rightarrow> PressureZone" where
  "spec_zone levels ty i =
     \<lparr>zone_price = price (levels ! i), intensity = spec_intensity levels i,
      zone_type = ty, volume = quantity (levels ! i)\<rparr>"

text \<open>
  The zones kept for a side: one for each interior index, in index order, that is a
  candidate whose intensity is at least 0.3.
\<close>

definition spec_spikes :: "OrderBookLevel list \<Rightarrow> zone_type \<Rightarrow> PressureZone list" where
  "spec_spikes levels ty =
     map (spec_zone levels ty)
       (filter (\<lambda>i. spec_candidate levels i \<and> spec_intensity levels i \<ge> 0.3)
          [1 ..< length levels - 1])"

subsection \<open>Greedy merge\<close>

text \<open>
  \<open>|next.price - running.price| / running.price <= 0.001\<close>; with a running price of 0
  the quotient is not a finite number and the comparison is false.
\<close>

definition spec_near :: "PressureZone \<Rightarrow> PressureZone \<Rightarrow> bool" where
  "spec_near running nxt =
     (zone_price running \<noteq> 0 \<and>
      \<bar>zone_price nxt - zone_price running\<bar> / zone_price running \<le> 0.001)"

text \<open>
  The merge rule: volume \<open>v1 + v2\<close>, volume-weighted price
  \<open>(p1 * v1 + p2 * v2) / (v1 + v2)\<close>, intensity \<open>max(i1, i2)\<close>, the side of the running
  zone.
\<close>

definition spec_merge :: "PressureZone \<Rightarrow> PressureZone \<Rightarrow> PressureZone" where
  "spec_merge a b =
     \<lparr>zone_price = (zone_price a * volume a + zone_price b * volume b) / (volume a + volume b),
      intensity = max (intensity a) (intensity b),
      zone_type = zone_type a,
      volume = volume a + volume b\<rparr>"

text \<open>
  The single left-to-right pass: the running zone absorbs the next zone when both have the
  same side and are near, and is flushed unchanged otherwise. As in the model of the code,
  a merge with total volume 0 has no finite weighted price.
\<close>

fun spec_greedy :: "PressureZone \<Rightarrow> PressureZone list \<Rightarrow> PressureZone list option" where
  "spec_greedy running [] = Some [running]"
| "spec_greedy running (nxt # rest) =
     (if zone_type running = zone_type nxt \<and> spec_near running nxt
      then (if volume running + volume nxt = 0 then None
            else spec_greedy (spec_merge running nxt) rest)
      else map_option (Cons running) (spec_greedy nxt rest))"

text \<open>Sort by price ascending, then run the pass from the cheapest zone.\<close>

definition spec_mergeNearby :: "PressureZone list \<Rightarrow> PressureZone list option" where
  "spec_mergeNearby zones =
     (case sort_key zone_price zones of
        [] \<Rightarrow> Some []
      | first # rest \<Rightarrow> spec_greedy first rest)"

text \<open>
  A list on which the pass has nothing left to do: no zone can absorb its successor.
\<close>

fun settled :: "PressureZone list \<Rightarrow> bool" where
  "settled (a # b # rest) =
     (\<not> (zone_type a = zone_type b \<and> spec_near a b) \<and> settled (b # rest))"
| "settled _ = True"

text \<open>
  The same for an arithmetic with rounding: no zone of the list is within the clustering
  distance of its left neighbour while both are of the same side.
\<close>

fun separated :: "rounding \<Rightarrow> PressureZone list \<Rightarrow> bool" where
  "separated rnd (a # b # rest) =
     (\<not> (withinClusteringDistance_rounded rnd a b \<and> zone_type a = zone_type b)
      \<and> separated rnd (b # rest))"
| "separated rnd _ = True"

section \<open>Observations used to state the properties of the service\<close>

text \<open>
  The functions of this section are not code of the service: they read off a state, or a
  list of events, the quantities that the properties below speak about.
\<close>

subsection \<open>Subscribers and unsubscribe handles\<close>

text \<open>The channel key that an unsubscribe closure captured.\<close>

definition handle_key :: "unsubscribe_handle \<Rightarrow> string" where
  "handle_key h = channelKey (h_venue h) (h_symbol h)"

text \<open>The listeners registered for a key, none when the key is absent.\<close>

definition listenerList :: "OrderBookService \<Rightarrow> string \<Rightarrow> callback list" where
  "listenerList s key = (case subscribers s key of None \<Rightarrow> [] | Some cs \<Rightarrow> cs)"

text \<open>The subscriber count the service holds for a key: the size of its listener set.\<close>

definition subscriberCount :: "OrderBookService \<Rightarrow> string \<Rightarrow> nat" where
  "subscriberCount s key = length (listenerList s key)"

text \<open>The unsubscribe handles issued for a key and not yet invoked.\<close>

definition liveHandles :: "OrderBookService \<Rightarrow> string \<Rightarrow> unsubscribe_handle list" where
  "liveHandles s key = filter (\<lambda>h. handle_key h = key \<and> \<not> invoked h) (handles s)"

text \<open>The listeners that the \<open>subscribe\<close> calls of an event list pass for a key.\<close>

fun subscribedListeners :: "string \<Rightarrow> event list \<Rightarrow> callback list" where
  "subscribedListeners key [] = []"
| "subscribedListeners key (Subscribe venueName symbolName callback # es) =
     (if channelKey venueName symbolName = key then [callback] else [])
       @ subscribedListeners key es"
| "subscribedListeners key (e # es) = subscribedListeners key es"

text \<open>
  The listener set of a key lists, in order, the listeners of the key's live handles, and
  no listener was subscribed twice for the key.
\<close>

definition count_invariant :: "OrderBookService \<Rightarrow> string \<Rightarrow> bool" where
  "count_invariant s key =
     (listenerList s key = map h_callback (liveHandles s key)
      \<and> distinct (map h_callback (filter (\<lambda>h. handle_key h = key) (handles s))))"

text \<open>An event that is a call of \<open>subscribe\<close> for the key.\<close>

fun subscribesTo :: "string \<Rightarrow> event \<Rightarrow> bool" where
  "subscribesTo key (Subscribe venueName symbolName callback) =
     (channelKey venueName symbolName = key)"
| "subscribesTo key _ = False"

text \<open>The listener calls logged for a key.\<close>

definition deliveredTo ::
  "OrderBookService \<Rightarrow> string \<Rightarrow> (string \<times> callback \<times> OrderBookData) list" where
  "deliveredTo s key = filter (\<lambda>d. fst d = key) (delivered s)"

subsection \<open>Reconnect attempts and timers\<close>

text \<open>\<open>reconnectAttempts.get(key) || 0\<close>.\<close>

definition attemptCount :: "OrderBookService \<Rightarrow> string \<Rightarrow> nat" where
  "attemptCount s key = (case reconnectAttempts s key of None \<Rightarrow> 0 | Some n \<Rightarrow> n)"

text \<open>The key for which the handlers of socket \<open>w\<close> were installed.\<close>

definition socketKey :: "OrderBookService \<Rightarrow> nat \<Rightarrow> string" where
  "socketKey s w = channelKey (ws_venue (sockets s ! w)) (ws_symbol (sockets s ! w))"

text \<open>A timer task that is a backoff retry of the key.\<close>

fun isReconnectFor :: "string \<Rightarrow> timer_task \<Rightarrow> bool" where
  "isReconnectFor key (Reconnect k venueName symbolName url) = (k = key)"
| "isReconnectFor key _ = False"

text \<open>How many backoff retries were ever scheduled for the key.\<close>

definition retriesScheduled :: "OrderBookService \<Rightarrow> string \<Rightarrow> nat" where
  "retriesScheduled s key = length (filter (isReconnectFor key) (map task (timers s)))"

text \<open>
  The retries scheduled so far plus those the attempt count still allows: the quantity
  that no failure can increase.
\<close>

definition retryBudget :: "OrderBookService \<Rightarrow> string \<Rightarrow> nat" where
  "retryBudget s key = retriesScheduled s key + (maxReconnectAttempts - attemptCount s key)"

text \<open>
  The events that can reset the attempt count of a key: the open event of a socket of the
  key, which sets it to 0, and the call of an unsubscribe handle of the key, which may
  tear the channel down and forget the count. \<open>noReset\<close> says that no event of a list
  is one of these at the state in which it happens.
\<close>

fun resetsCount :: "string \<Rightarrow> OrderBookService \<Rightarrow> event \<Rightarrow> bool" where
  "resetsCount key s (WsOpen w) = (w < length (sockets s) \<and> socketKey s w = key)"
| "resetsCount key s (InvokeUnsubscribe n) =
     (n < length (handles s) \<and> handle_key (handles s ! n) = key)"
| "resetsCount key s _ = False"

fun noReset ::
  "(string \<Rightarrow> real option) \<Rightarrow> string \<Rightarrow> OrderBookService \<Rightarrow> event list \<Rightarrow> bool" where
  "noReset parseFloat key s [] = True"
| "noReset parseFloat key s (e # es) =
     (\<not> resetsCount key s e \<and> noReset parseFloat key (step parseFloat e s) es)"

text \<open>The key a timer belongs to, and the pending timers of a key.\<close>

fun timerKey :: "timer_task \<Rightarrow> string" where
  "timerKey (ConnectionTimeout w venueName symbolName) = channelKey venueName symbolName"
| "timerKey (Reconnect key venueName symbolName url) = key"
| "timerKey (MockFeed venueName symbolName) = channelKey venueName symbolName"

definition pendingTimers :: "OrderBookService \<Rightarrow> string \<Rightarrow> timer list" where
  "pendingTimers s key = filter (\<lambda>t. pending t \<and> timerKey (task t) = key) (timers s)"

subsection \<open>A run of events\<close>

text \<open>
  \<open>fiveFailedAttempts\<close>: a listener subscribes to a Binance channel; the first
  connection and each of the four retries close abnormally (code 1006), every retry
  timer firing before the next close. \<open>teardownDuringBackoff\<close>: after that the
  listener's unsubscribe handle is called while the fifth retry is pending, the retry
  timer fires, and the socket it opens closes abnormally as well.
\<close>

definition fiveFailedAttempts :: "event list" where
  "fiveFailedAttempts =
     [Subscribe ''binance'' ''BTCUSDT'' 0,
      WsClose 0 1006, TimerFires 1 (\<lambda>j. 0) 0,
      WsClose 1 1006, TimerFires 3 (\<lambda>j. 0) 0,
      WsClose 2 1006, TimerFires 5 (\<lambda>j. 0) 0,
      WsClose 3 1006, TimerFires 7 (\<lambda>j. 0) 0,
      WsClose 4 1006]"

definition teardownDuringBackoff :: "event list" where
  "teardownDuringBackoff =
     fiveFailedAttempts @ [InvokeUnsubscribe 0, TimerFires 9 (\<lambda>j. 0) 0, WsClose 5 1006]"

subsection \<open>Order of the levels of a snapshot\<close>

definition strictlyDescending :: "OrderBookLevel list \<Rightarrow> bool" where
  "strictlyDescending levels = sorted_wrt (\<lambda>a b. price a > price b) levels"

definition strictlyAscending :: "OrderBookLevel list \<Rightarrow> bool" where
  "strictlyAscending levels = sorted_wrt (\<lambda>a b. price a < price b) levels"

definition descending :: "OrderBookLevel list \<Rightarrow> bool" where
  "descending levels = sorted_wrt (\<lambda>a b. price a \<ge> price b) levels"

definition ascending :: "OrderBookLevel list \<Rightarrow> bool" where
  "ascending levels = sorted_wrt (\<lambda>a b. price a \<le> price b) levels"

text \<open>
  The prices of the pairs of a payload side that pass the validation of
  \<open>parseBinanceData\<close>, in the payload's order.
\<close>

fun validPrices :: "(string \<Rightarrow> real option) \<Rightarrow> (string \<times> string) list \<Rightarrow> real list" where
  "validPrices parseFloat [] = []"
| "validPrices parseFloat ((priceStr, quantityStr) # rest) =
     (case (parseFloat priceStr, parseFloat quantityStr) of
        (Some p, Some qty) \<Rightarrow>
          if 0 < p \<and> 0 < qty then p # validPrices parseFloat rest
          else validPrices parseFloat rest
      | _ \<Rightarrow> validPrices parseFloat rest)"

text \<open>The depth object of a payload, and the entries of one of its sides.\<close>

definition payloadOf :: "binance_data \<Rightarrow> depth_payload" where
  "payloadOf data = (case data of DirectDepth d \<Rightarrow> d | StreamWrapper d \<Rightarrow> d)"

definition rawSide :: "(string \<times> string) list option \<Rightarrow> (string \<times> string) list" where
  "rawSide side = (case side of None \<Rightarrow> [] | Some entries \<Rightarrow> entries)"

section \<open>Properties of the analyzer\<close>

subsection \<open>Imbalance\<close>

lemma foldl_quantity_sum:
  "foldl (\<lambda>sum level. sum + quantity level) a ls = a + sum_list (map quantity ls)"
  by (induction ls arbitrary: a) simp_all

lemma sum_list_quantity_nonneg:
  "(\<And>l. l \<in> set ls \<Longrightarrow> 0 \<le> quantity l) \<Longrightarrow> 0 \<le> sum_list (map quantity ls)"
  by (induction ls) (simp_all add: add_nonneg_nonneg)

lemma imbalance_quotient_bounds:
  fixes b a :: real
  assumes "0 \<le> b" and "0 \<le> a" and "b + a \<noteq> 0"
  shows "- 1 \<le> (b - a) / (b + a)" and "(b - a) / (b + a) \<le> 1"
proof -
  from assms have pos: "0 < b + a" by linarith
  have "- (b + a) \<le> b - a" using assms by linarith
  then show "- 1 \<le> (b - a) / (b + a)"
    using pos by (simp add: pos_le_divide_eq)
  have "b - a \<le> b + a" using assms by linarith
  then show "(b - a) / (b + a) \<le> 1"
    using pos by (simp add: pos_divide_le_eq)
qed

text \<open>
  C9. \<open>calculateImbalance\<close> returns exactly 0 when the total bid volume plus the total
  ask volume is 0, and otherwise the quotient of their difference by their sum; when every
  level quantity of the snapshot is nonnegative the result lies in the closed interval
  from -1 to 1.
\<close>

theorem calculateImbalance_value_and_bounds:
  fixes d :: OrderBookData
  defines "totalBidVol \<equiv> sum_list (map quantity (bids d))"
      and "totalAskVol \<equiv> sum_list (map quantity (asks d))"
  shows "(totalBidVol + totalAskVol = 0 \<longrightarrow> calculateImbalance d = 0)
       \<and> (totalBidVol + totalAskVol \<noteq> 0 \<longrightarrow>
            calculateImbalance d = (totalBidVol - totalAskVol) / (totalBidVol + totalAskVol))
       \<and> ((\<forall>l \<in> set (bids d) \<union> set (asks d). 0 \<le> quantity l) \<longrightarrow>
            - 1 \<le> calculateImbalance d \<and> calculateImbalance d \<le> 1)"
proof -
  have val: "calculateImbalance d =
      (if totalBidVol + totalAskVol = 0 then 0
       else (totalBidVol - totalAskVol) / (totalBidVol + totalAskVol))"
    by (simp add: calculateImbalance_def Let_def foldl_quantity_sum
        totalBidVol_def totalAskVol_def)
  have bnd: "- 1 \<le> calculateImbalance d \<and> calculateImbalance d \<le> 1"
    if nn: "\<forall>l \<in> set (bids d) \<union> set (asks d). 0 \<le> quantity l"
  proof (cases "totalBidVol + totalAskVol = 0")
    case True
    then show ?thesis by (simp add: val)
  next
    case False
    have "0 \<le> totalBidVol" "0 \<le> totalAskVol"
      unfolding totalBidVol_def totalAskVol_def
      using nn by (auto intro!: sum_list_quantity_nonneg)
    with False show ?thesis
      using imbalance_quotient_bounds [of totalBidVol totalAskVol] by (simp add: val)
  qed
  show ?thesis using val bnd by simp
qed

theorem calculateImbalance_witness:
  "calculateImbalance
     \<lparr>bids = [\<lparr>price = 100, quantity = 3, total = 3, timestamp = 0\<rparr>],
      asks = [\<lparr>price = 101, quantity = 1, total = 1, timestamp = 0\<rparr>],
      symbol = ''BTCUSDT'', venue = ''binance'', data_timestamp = 0\<rparr> = 1 / 2
   \<and> calculateImbalance
     \<lparr>bids = [], asks = [], symbol = ''BTCUSDT'', venue = ''binance'',
      data_timestamp = 0\<rparr> = 0"
  using calculateImbalance_value_and_bounds
      [of "\<lparr>bids = [\<lparr>price = 100, quantity = 3, total = 3, timestamp = 0\<rparr>],
            asks = [\<lparr>price = 101, quantity = 1, total = 1, timestamp = 0\<rparr>],
            symbol = ''BTCUSDT'', venue = ''binance'', data_timestamp = 0\<rparr>"]
    calculateImbalance_value_and_bounds
      [of "\<lparr>bids = [], asks = [], symbol = ''BTCUSDT'', venue = ''binance'',
            data_timestamp = 0\<rparr>"]
  by simp

subsection \<open>Spread\<close>

text \<open>
  C8. If either side of the snapshot is empty, \<open>getSpreadAnalysis\<close> returns spread 0,
  spreadPercent 0, midPrice 0 and tightness normal. Otherwise, with the best bid and best
  ask the first level of each side, it returns spread = bestAsk - bestBid,
  midPrice = (bestAsk + bestBid) / 2 and spreadPercent = spread / midPrice * 100, with
  tightness tight when spreadPercent is below 0.05, wide when it is above 0.2 and normal
  otherwise. (The quotient is a real number when the mid price is not 0, which holds for
  every book with positive prices.)
\<close>

theorem getSpreadAnalysis_cases:
  fixes d :: OrderBookData
  defines "bestBid \<equiv> price (hd (bids d))"
      and "bestAsk \<equiv> price (hd (asks d))"
  defines "pct \<equiv> (bestAsk - bestBid) / ((bestAsk + bestBid) / 2) * 100"
  shows "(bids d = [] \<or> asks d = [] \<longrightarrow>
            getSpreadAnalysis d =
              Some \<lparr>spread = 0, spreadPercent = 0, midPrice = 0, tightness = normal\<rparr>)
       \<and> (bids d \<noteq> [] \<and> asks d \<noteq> [] \<and> bestAsk + bestBid \<noteq> 0 \<longrightarrow>
            (\<exists>r. getSpreadAnalysis d = Some r
               \<and> spread r = bestAsk - bestBid
               \<and> midPrice r = (bestAsk + bestBid) / 2
               \<and> spreadPercent r = pct
               \<and> (pct < 0.05 \<longrightarrow> tightness r = tight)
               \<and> (pct > 0.2 \<longrightarrow> tightness r = wide)
               \<and> (0.05 \<le> pct \<and> pct \<le> 0.2 \<longrightarrow> tightness r = normal)))"
proof (intro conjI impI)
  assume "bids d = [] \<or> asks d = []"
  then show "getSpreadAnalysis d =
      Some \<lparr>spread = 0, spreadPercent = 0, midPrice = 0, tightness = normal\<rparr>"
    by (auto simp: getSpreadAnalysis_def)
next
  assume a: "bids d \<noteq> [] \<and> asks d \<noteq> [] \<and> bestAsk + bestBid \<noteq> 0"
  define r where "r = \<lparr>spread = bestAsk - bestBid, spreadPercent = pct,
      midPrice = (bestAsk + bestBid) / 2,
      tightness = (if pct < 0.05 then tight else if pct > 0.2 then wide else normal)\<rparr>"
  from a have hd0: "price (bids d ! 0) = bestBid" "price (asks d ! 0) = bestAsk"
    by (simp_all add: hd_conv_nth bestBid_def bestAsk_def)
  have comm: "(bestBid + bestAsk) / 2 = (bestAsk + bestBid) / 2" by simp
  from a have mid: "(bestAsk + bestBid) / 2 \<noteq> 0" by simp
  have res: "getSpreadAnalysis d = Some r"
    using a mid unfolding getSpreadAnalysis_def Let_def hd0 comm r_def pct_def
    by simp
  have "spread r = bestAsk - bestBid" "midPrice r = (bestAsk + bestBid) / 2"
    "spreadPercent r = pct" "pct < 0.05 \<longrightarrow> tightness r = tight"
    "pct > 0.2 \<longrightarrow> tightness r = wide"
    "0.05 \<le> pct \<and> pct \<le> 0.2 \<longrightarrow> tightness r = normal"
    by (simp_all add: r_def)
  with res show "\<exists>r. getSpreadAnalysis d = Some r
               \<and> spread r = bestAsk - bestBid
               \<and> midPrice r = (bestAsk + bestBid) / 2
               \<and> spreadPercent r = pct
               \<and> (pct < 0.05 \<longrightarrow> tightness r = tight)
               \<and> (pct > 0.2 \<longrightarrow> tightness r = wide)
               \<and> (0.05 \<le> pct \<and> pct \<le> 0.2 \<longrightarrow> tightness r = normal)"
    by blast
qed

theorem getSpreadAnalysis_witness:
  "getSpreadAnalysis
     \<lparr>bids = [\<lparr>price = 100, quantity = 3, total = 3, timestamp = 0\<rparr>],
      asks = [\<lparr>price = 101, quantity = 1, total = 1, timestamp = 0\<rparr>],
      symbol = ''BTCUSDT'', venue = ''binance'', data_timestamp = 0\<rparr>
   = Some \<lparr>spread = 1, spreadPercent = 200 / 201, midPrice = 201 / 2, tightness = wide\<rparr>
   \<and> getSpreadAnalysis
     \<lparr>bids = [], asks = [\<lparr>price = 101, quantity = 1, total = 1, timestamp = 0\<rparr>],
      symbol = ''BTCUSDT'', venue = ''binance'', data_timestamp = 0\<rparr>
   = Some \<lparr>spread = 0, spreadPercent = 0, midPrice = 0, tightness = normal\<rparr>"
  using getSpreadAnalysis_cases
      [of "\<lparr>bids = [\<lparr>price = 100, quantity = 3, total = 3, timestamp = 0\<rparr>],
            asks = [\<lparr>price = 101, quantity = 1, total = 1, timestamp = 0\<rparr>],
            symbol = ''BTCUSDT'', venue = ''binance'', data_timestamp = 0\<rparr>"]
    getSpreadAnalysis_cases
      [of "\<lparr>bids = [], asks = [\<lparr>price = 101, quantity = 1, total = 1, timestamp = 0\<rparr>],
            symbol = ''BTCUSDT'', venue = ''binance'', data_timestamp = 0\<rparr>"]
  by auto

subsection \<open>The loops and their reference formulations\<close>

lemma spikeLoop_done:
  "\<not> i < length levels - 1 \<Longrightarrow> spikeLoop levels ty avg thr i zones = zones"
  by (subst spikeLoop.simps) simp

lemma spikeLoop_step:
  assumes "i < length levels - 1"
  shows "spikeLoop levels ty (spec_avg levels) (spec_avg levels * VOLUME_THRESHOLD_MULTIPLIER)
           i zones =
         spikeLoop levels ty (spec_avg levels) (spec_avg levels * VOLUME_THRESHOLD_MULTIPLIER)
           (i + 1)
           (zones @ (if spec_candidate levels i \<and> spec_intensity levels i \<ge> 0.3
                     then [spec_zone levels ty i] else []))"
  apply (subst spikeLoop.simps)
  using assms
  apply (simp add: Let_def spec_candidate_def spec_intensity_def spec_zone_def
      VOLUME_THRESHOLD_MULTIPLIER_def MIN_ZONE_STRENGTH_def mult.commute)
  done

lemma spikeLoop_unfold_upt:
  "spikeLoop levels ty (spec_avg levels) (spec_avg levels * VOLUME_THRESHOLD_MULTIPLIER) i zones =
     zones @ map (spec_zone levels ty)
       (filter (\<lambda>i. spec_candidate levels i \<and> spec_intensity levels i \<ge> 0.3)
          [i ..< length levels - 1])"
proof (induction "length levels - 1 - i" arbitrary: i zones)
  case 0
  then have "\<not> i < length levels - 1" by simp
  then show ?case by (simp add: spikeLoop_done)
next
  case (Suc n)
  then have lt: "i < length levels - 1" by simp
  then have upt: "[i ..< length levels - 1] = i # [i + 1 ..< length levels - 1]"
    by (simp add: upt_conv_Cons)
  from Suc have n: "n = length levels - 1 - (i + 1)" by simp
  show ?case
    unfolding spikeLoop_step [OF lt] Suc.hyps(1) [OF n] upt by simp
qed

lemma mergeLoop_spec_greedy:
  "mergeLoop merged current rest = map_option (append merged) (spec_greedy current rest)"
proof (induction rest arbitrary: merged current)
  case Nil
  show ?case by simp
next
  case (Cons nxt rest)
  show ?case
    by (simp add: Cons.IH Let_def withinClusteringDistance_def CLUSTERING_DISTANCE_def
        spec_near_def spec_merge_def option.map_comp comp_def conj_commute)
qed

lemma mergeNearbyZones_spec: "mergeNearbyZones zones = spec_mergeNearby zones"
proof (cases "length zones \<le> 1")
  case True
  then consider "zones = []" | z where "zones = [z]"
    by (cases zones) (auto simp: le_Suc_eq)
  then show ?thesis
    by cases (simp_all add: mergeNearbyZones_def spec_mergeNearby_def)
next
  case False
  then have "sort_key zone_price zones \<noteq> []" by (cases zones) simp_all
  then obtain first rest where s: "sort_key zone_price zones = first # rest"
    by (cases "sort_key zone_price zones") auto
  with False show ?thesis
    by (simp add: mergeNearbyZones_def spec_mergeNearby_def Let_def mergeLoop_spec_greedy
        option.map_ident cong: option.map_cong)
qed

lemma spec_greedy_signed_volume:
  assumes "\<forall>z \<in> set (r # xs). 0 < sg * volume z \<and> lo \<le> intensity z \<and> intensity z \<le> hi"
  shows "\<exists>out. spec_greedy r xs = Some out
           \<and> (\<forall>z \<in> set out. 0 < sg * volume z \<and> lo \<le> intensity z \<and> intensity z \<le> hi)"
  using assms
proof (induction xs arbitrary: r)
  case Nil
  then show ?case by simp
next
  case (Cons n ns)
  show ?case
  proof (cases "zone_type r = zone_type n \<and> spec_near r n")
    case True
    from Cons.prems have v: "0 < sg * volume r" "0 < sg * volume n" by simp_all
    then have "0 < sg * (volume r + volume n)" by (simp add: distrib_left)
    then have nz: "volume r + volume n \<noteq> 0" by auto
    have "\<forall>z \<in> set (spec_merge r n # ns).
        0 < sg * volume z \<and> lo \<le> intensity z \<and> intensity z \<le> hi"
      using Cons.prems \<open>0 < sg * (volume r + volume n)\<close> by (auto simp: spec_merge_def)
    from Cons.IH [OF this] True nz show ?thesis by simp
  next
    case False
    have "\<forall>z \<in> set (n # ns). 0 < sg * volume z \<and> lo \<le> intensity z \<and> intensity z \<le> hi"
      using Cons.prems by simp
    from Cons.IH [OF this] obtain out where
      "spec_greedy n ns = Some out"
      "\<forall>z \<in> set out. 0 < sg * volume z \<and> lo \<le> intensity z \<and> intensity z \<le> hi"
      by blast
    with False Cons.prems show ?thesis by auto
  qed
qed

lemma spec_greedy_settled: "settled (g # gs) \<Longrightarrow> spec_greedy g gs = Some (g # gs)"
  by (induction gs arbitrary: g) auto

lemma weighted_price_between:
  fixes p1 p2 v1 v2 :: real
  assumes "0 < v1" "0 < v2" "p1 \<le> p2"
  shows "p1 \<le> (p1 * v1 + p2 * v2) / (v1 + v2)" and "(p1 * v1 + p2 * v2) / (v1 + v2) \<le> p2"
proof -
  have pos: "0 < v1 + v2" using assms by simp
  have "p1 * (v1 + v2) \<le> p1 * v1 + p2 * v2"
    using assms by (simp add: distrib_left mult_right_mono)
  then show "p1 \<le> (p1 * v1 + p2 * v2) / (v1 + v2)"
    using pos by (simp add: pos_le_divide_eq)
  have "p1 * v1 + p2 * v2 \<le> p2 * (v1 + v2)"
    using assms by (simp add: distrib_left mult_right_mono)
  then show "(p1 * v1 + p2 * v2) / (v1 + v2) \<le> p2"
    using pos by (simp add: pos_divide_le_eq)
qed

lemma weighted_price_between_signed:
  fixes p1 p2 v1 v2 sg :: real
  assumes "0 < sg * v1" "0 < sg * v2" "p1 \<le> p2"
  shows "p1 \<le> (p1 * v1 + p2 * v2) / (v1 + v2)" and "(p1 * v1 + p2 * v2) / (v1 + v2) \<le> p2"
proof -
  from assms(1) have sg: "sg \<noteq> 0" by auto
  have "(p1 * (sg * v1) + p2 * (sg * v2)) / (sg * v1 + sg * v2)
      = (sg * (p1 * v1 + p2 * v2)) / (sg * (v1 + v2))"
    by (simp add: algebra_simps)
  also have "\<dots> = (p1 * v1 + p2 * v2) / (v1 + v2)"
    using sg by (rule mult_divide_mult_cancel_left)
  finally have eq: "(p1 * (sg * v1) + p2 * (sg * v2)) / (sg * v1 + sg * v2)
      = (p1 * v1 + p2 * v2) / (v1 + v2)" .
  show "p1 \<le> (p1 * v1 + p2 * v2) / (v1 + v2)"
    using weighted_price_between(1) [OF assms] unfolding eq .
  show "(p1 * v1 + p2 * v2) / (v1 + v2) \<le> p2"
    using weighted_price_between(2) [OF assms] unfolding eq .
qed

lemma spec_near_farther:
  assumes "zone_price r \<le> zone_price n" "zone_price n \<le> zone_price g"
    and "\<not> spec_near r n"
  shows "\<not> spec_near r g"
proof -
  consider "zone_price r < 0" | "zone_price r = 0" | "0 < zone_price r" by linarith
  then show ?thesis
  proof cases
    case 1
    then have "\<bar>zone_price n - zone_price r\<bar> / zone_price r \<le> 0"
      by (simp add: divide_le_0_iff)
    moreover have "(0::real) \<le> 0.001" by simp
    ultimately have le: "\<bar>zone_price n - zone_price r\<bar> / zone_price r \<le> 0.001"
      by (rule order_trans)
    have nz: "zone_price r \<noteq> 0" using 1 by simp
    have "spec_near r n" unfolding spec_near_def using nz le by blast
    with assms(3) show ?thesis by simp
  next
    case 2
    then show ?thesis by (simp add: spec_near_def)
  next
    case 3
    have "(zone_price n - zone_price r) / zone_price r
        \<le> (zone_price g - zone_price r) / zone_price r"
      using 3 assms(2) by (simp add: divide_right_mono)
    with 3 assms show ?thesis by (simp add: spec_near_def)
  qed
qed

lemma spec_greedy_sorted_signed:
  assumes "\<forall>z \<in> set (r # xs). 0 < sg * volume z"
    and "sorted (map zone_price (r # xs))"
  shows "\<exists>g gs. spec_greedy r xs = Some (g # gs)
           \<and> zone_type g = zone_type r \<and> zone_price r \<le> zone_price g
           \<and> (\<forall>z \<in> set (g # gs). 0 < sg * volume z)
           \<and> sorted (map zone_price (g # gs)) \<and> settled (g # gs)"
  using assms
proof (induction xs arbitrary: r)
  case Nil
  then show ?case by simp
next
  case (Cons n ns)
  from Cons.prems have pr: "0 < sg * volume r" "0 < sg * volume n"
    and le: "zone_price r \<le> zone_price n"
    and sn: "sorted (map zone_price (n # ns))"
    and pn: "\<forall>z \<in> set (n # ns). 0 < sg * volume z"
    by simp_all
  show ?case
  proof (cases "zone_type r = zone_type n \<and> spec_near r n")
    case True
    let ?m = "spec_merge r n"
    have bt: "zone_price r \<le> zone_price ?m" "zone_price ?m \<le> zone_price n"
      using weighted_price_between_signed [OF pr(1) pr(2) le] by (simp_all add: spec_merge_def)
    have pm: "\<forall>z \<in> set (?m # ns). 0 < sg * volume z"
      using pn pr by (auto simp: spec_merge_def distrib_left)
    have sm: "sorted (map zone_price (?m # ns))"
      using sn bt(2) by auto
    from Cons.IH [OF pm sm] obtain g gs where
      g: "spec_greedy ?m ns = Some (g # gs)" "zone_type g = zone_type ?m"
        "zone_price ?m \<le> zone_price g"
        "\<forall>z \<in> set (g # gs). 0 < sg * volume z"
        "sorted (map zone_price (g # gs))" "settled (g # gs)"
      by blast
    have "0 < sg * (volume r + volume n)" using pr by (simp add: distrib_left)
    then have nz: "volume r + volume n \<noteq> 0" by auto
    have "spec_greedy r (n # ns) = Some (g # gs)" using True nz g(1) by simp
    moreover have "zone_type g = zone_type r" using g(2) by (simp add: spec_merge_def)
    moreover have "zone_price r \<le> zone_price g" using bt(1) g(3) by simp
    ultimately show ?thesis using g(4,5,6) by blast
  next
    case False
    from Cons.IH [OF pn sn] obtain g gs where
      g: "spec_greedy n ns = Some (g # gs)" "zone_type g = zone_type n"
        "zone_price n \<le> zone_price g"
        "\<forall>z \<in> set (g # gs). 0 < sg * volume z"
        "sorted (map zone_price (g # gs))" "settled (g # gs)"
      by blast
    have far: "\<not> (zone_type r = zone_type g \<and> spec_near r g)"
      using False g(2) spec_near_farther [OF le g(3)] by auto
    have res: "spec_greedy r (n # ns) = Some (r # g # gs)" using False g(1) by auto
    have "zone_price r \<le> zone_price g" using le g(3) by simp
    then have "sorted (map zone_price (r # g # gs))" using g(5) by auto
    moreover have "settled (r # g # gs)" using far g(6) by simp
    moreover have "\<forall>z \<in> set (r # g # gs). 0 < sg * volume z"
      using g(4) pr by simp
    ultimately show ?thesis using res by blast
  qed
qed

lemma spec_mergeNearby_fixpoint:
  assumes "\<forall>z \<in> set zones. 0 < sg * volume z"
  shows "\<exists>out. spec_mergeNearby zones = Some out \<and> spec_mergeNearby out = Some out"
proof (cases "sort_key zone_price zones")
  case Nil
  then show ?thesis by (simp add: spec_mergeNearby_def)
next
  case (Cons r xs)
  have "set (r # xs) = set zones" using Cons [symmetric] by simp
  with assms have pos: "\<forall>z \<in> set (r # xs). 0 < sg * volume z" by blast
  have srt: "sorted (map zone_price (r # xs))" using Cons [symmetric] by simp
  from spec_greedy_sorted_signed [OF pos srt] obtain g gs where
    g: "spec_greedy r xs = Some (g # gs)"
      "sorted (map zone_price (g # gs))" "settled (g # gs)"
    by blast
  have "sort_key zone_price (g # gs) = g # gs"
    using g(2) by (rule sort_key_id_if_sorted)
  then have "spec_mergeNearby (g # gs) = Some (g # gs)"
    using spec_greedy_settled [OF g(3)] by (simp add: spec_mergeNearby_def)
  moreover have "spec_mergeNearby zones = Some (g # gs)"
    using Cons g(1) by (simp add: spec_mergeNearby_def)
  ultimately show ?thesis by blast
qed

lemma spec_greedy_collapse:
  assumes "0 < lo" "lo \<le> zone_price r" "0 < volume r"
    and "\<forall>x \<in> set xs. 0 < volume x \<and> zone_type x = zone_type r \<and> zone_price x \<le> lo * 1.001"
    and "sorted (map zone_price (r # xs))"
  shows "\<exists>m. spec_greedy r xs = Some [m]
           \<and> zone_type m = zone_type r
           \<and> volume m = volume r + sum_list (map volume xs)
           \<and> zone_price m * volume m =
               zone_price r * volume r + sum_list (map (\<lambda>z. zone_price z * volume z) xs)
           \<and> intensity m = fold max (map intensity xs) (intensity r)"
  using assms
proof (induction xs arbitrary: r)
  case Nil
  then show ?case by simp
next
  case (Cons n ns)
  let ?m = "spec_merge r n"
  from Cons.prems have v: "0 < volume r" "0 < volume n" and ty: "zone_type n = zone_type r"
    and le: "zone_price r \<le> zone_price n" and up: "zone_price n \<le> lo * 1.001"
    and pr: "0 < zone_price r"
    by simp_all
  have bt: "zone_price r \<le> zone_price ?m" "zone_price ?m \<le> zone_price n"
    using weighted_price_between [OF v le] by (simp_all add: spec_merge_def)
  have "zone_price n - zone_price r \<le> zone_price r * 0.001"
    using up Cons.prems(2) by simp
  then have "(zone_price n - zone_price r) / zone_price r \<le> 0.001"
    using pr by (simp add: pos_divide_le_eq mult.commute)
  then have near: "spec_near r n" using pr le by (simp add: spec_near_def)
  have nz: "volume r + volume n \<noteq> 0" using v by simp
  have step: "spec_greedy r (n # ns) = spec_greedy ?m ns" using near ty nz by simp
  have a2: "lo \<le> zone_price ?m" using bt(1) Cons.prems(2) by simp
  have a3: "0 < volume ?m" using v by (simp add: spec_merge_def)
  have a4: "\<forall>x \<in> set ns. 0 < volume x \<and> zone_type x = zone_type ?m \<and> zone_price x \<le> lo * 1.001"
    using Cons.prems(4) by (simp add: spec_merge_def)
  have a5: "sorted (map zone_price (?m # ns))" using Cons.prems(5) bt(2) by auto
  from Cons.IH [OF Cons.prems(1) a2 a3 a4 a5] obtain m where
    m: "spec_greedy ?m ns = Some [m]" "zone_type m = zone_type ?m"
      "volume m = volume ?m + sum_list (map volume ns)"
      "zone_price m * volume m =
         zone_price ?m * volume ?m + sum_list (map (\<lambda>z. zone_price z * volume z) ns)"
      "intensity m = fold max (map intensity ns) (intensity ?m)"
    by blast
  have pv: "zone_price ?m * volume ?m = zone_price r * volume r + zone_price n * volume n"
    using nz by (simp add: spec_merge_def)
  show ?case
    unfolding step using m pv by (simp add: spec_merge_def max.commute)
qed

lemma findVolumeSpikes_spec:
  "findVolumeSpikes levels ty =
     (if length levels < 3 then Some [] else mergeNearbyZones (spec_spikes levels ty))"
proof (cases "length levels < 3")
  case True
  then show ?thesis by (simp add: findVolumeSpikes_def)
next
  case False
  then have "findVolumeSpikes levels ty =
      mergeNearbyZones (spikeLoop levels ty (spec_avg levels)
        (spec_avg levels * VOLUME_THRESHOLD_MULTIPLIER) 1 [])"
    by (simp add: findVolumeSpikes_def Let_def foldl_quantity_sum spec_avg_def)
  also have "\<dots> = mergeNearbyZones (spec_spikes levels ty)"
    unfolding spikeLoop_unfold_upt spec_spikes_def by simp
  finally show ?thesis using False by simp
qed

lemma sum_list_insort_key:
  fixes g :: "'a \<Rightarrow> real"
  shows "sum_list (map g (insort_key f x xs)) = g x + sum_list (map g xs)"
  by (induction xs) simp_all

lemma sum_list_sort_key:
  fixes g :: "'a \<Rightarrow> real"
  shows "sum_list (map g (sort_key f xs)) = sum_list (map g xs)"
  by (induction xs) (simp_all add: sum_list_insort_key)

lemma spec_mergeNearby_collapse:
  assumes ne: "zones \<noteq> []"
    and wf: "\<forall>a \<in> set zones. 0 < zone_price a \<and> 0 < volume a \<and> zone_type a = t"
    and near: "\<forall>a \<in> set zones. \<forall>b \<in> set zones.
        \<bar>zone_price b - zone_price a\<bar> / zone_price a \<le> 0.001"
  shows "\<exists>m. spec_mergeNearby zones = Some [m]
           \<and> zone_type m = t
           \<and> volume m = sum_list (map volume zones)
           \<and> zone_price m * volume m = sum_list (map (\<lambda>z. zone_price z * volume z) zones)
           \<and> intensity m = Max (intensity ` set zones)"
proof -
  from ne have "sort_key zone_price zones \<noteq> []" by (cases zones) simp_all
  then obtain r xs where s: "sort_key zone_price zones = r # xs"
    by (cases "sort_key zone_price zones") auto
  have st: "set (r # xs) = set zones" using s [symmetric] by simp
  have srt: "sorted (map zone_price (r # xs))" using s [symmetric] by simp
  have r: "0 < zone_price r" "0 < volume r" "zone_type r = t" using wf st by auto
  have xs: "\<forall>x \<in> set xs. 0 < volume x \<and> zone_type x = zone_type r
      \<and> zone_price x \<le> zone_price r * 1.001"
  proof
    fix x assume x: "x \<in> set xs"
    then have xz: "x \<in> set zones" using st by auto
    have rz: "r \<in> set zones" using st by auto
    have le: "zone_price r \<le> zone_price x" using srt x by simp
    from near rz xz have "\<bar>zone_price x - zone_price r\<bar> / zone_price r \<le> 0.001" by blast
    then have "(zone_price x - zone_price r) / zone_price r \<le> 0.001" using le by simp
    then have "zone_price x - zone_price r \<le> 0.001 * zone_price r"
      using r(1) by (simp add: pos_divide_le_eq)
    then have "zone_price x \<le> zone_price r * 1.001" by simp
    with wf xz r(3) show "0 < volume x \<and> zone_type x = zone_type r
        \<and> zone_price x \<le> zone_price r * 1.001" by simp
  qed
  from spec_greedy_collapse [OF r(1) order_refl r(2) xs srt] obtain m where
    m: "spec_greedy r xs = Some [m]" "zone_type m = zone_type r"
      "volume m = volume r + sum_list (map volume xs)"
      "zone_price m * volume m =
         zone_price r * volume r + sum_list (map (\<lambda>z. zone_price z * volume z) xs)"
      "intensity m = fold max (map intensity xs) (intensity r)"
    by blast
  have "spec_mergeNearby zones = Some [m]" using s m(1) by (simp add: spec_mergeNearby_def)
  moreover have "volume m = sum_list (map volume zones)"
    using m(3) sum_list_sort_key [of volume zone_price zones] s by simp
  moreover have "zone_price m * volume m = sum_list (map (\<lambda>z. zone_price z * volume z) zones)"
    using m(4) sum_list_sort_key [of "\<lambda>z. zone_price z * volume z" zone_price zones] s by simp
  moreover have "intensity m = Max (intensity ` set zones)"
  proof -
    have "intensity m = Max (set (intensity r # map intensity xs))"
      using m(5) by (simp only: Max.set_eq_fold)
    also have "set (intensity r # map intensity xs) = intensity ` set (r # xs)" by simp
    also have "\<dots> = intensity ` set zones" by (simp only: st)
    finally show ?thesis .
  qed
  ultimately show ?thesis using m(2) r(3) by blast
qed

lemma spec_spikes_sign_and_strength:
  assumes "z \<in> set (spec_spikes levels ty)"
  shows "0 < (if spec_avg levels < 0 then - 1 else 1) * volume z
       \<and> 0.3 \<le> intensity z \<and> intensity z \<le> 1"
proof -
  from assms obtain i where z: "z = spec_zone levels ty i"
    and c: "spec_candidate levels i" and s: "0.3 \<le> spec_intensity levels i"
    by (auto simp: spec_spikes_def)
  let ?q = "quantity (levels ! i)" and ?avg = "spec_avg levels"
  have up: "spec_intensity levels i \<le> 1" by (simp add: spec_intensity_def)
  from c have thr: "?avg * 1.5 < ?q" by (simp add: spec_candidate_def)
  have sign: "0 < (if ?avg < 0 then - 1 else 1) * ?q"
  proof (cases "?avg < 0")
    case True
    with s have "0.3 \<le> ?q / (?avg * 3)" by (simp add: spec_intensity_def)
    moreover have "?avg * 3 < 0" using True by simp
    ultimately have "?q \<le> 0.3 * (?avg * 3)" by (simp add: neg_le_divide_eq)
    with True have "?q < 0" by simp
    with True show ?thesis by simp
  next
    case False
    with thr have "0 < ?q" by simp
    with False show ?thesis by simp
  qed
  show ?thesis using sign s up by (simp add: z spec_zone_def)
qed

lemma findVolumeSpikes_total_bounded:
  "\<exists>out. findVolumeSpikes levels ty = Some out
     \<and> (\<forall>z \<in> set out. 0.3 \<le> intensity z \<and> intensity z \<le> 1)"
proof (cases "length levels < 3")
  case True
  then show ?thesis by (simp add: findVolumeSpikes_spec)
next
  case False
  let ?sg = "if spec_avg levels < 0 then - 1 else 1 :: real"
  show ?thesis
  proof (cases "sort_key zone_price (spec_spikes levels ty)")
    case Nil
    with False show ?thesis
      by (simp add: findVolumeSpikes_spec mergeNearbyZones_spec spec_mergeNearby_def)
  next
    case (Cons r xs)
    have "set (r # xs) = set (spec_spikes levels ty)" using Cons [symmetric] by simp
    then have "\<forall>z \<in> set (r # xs). 0 < ?sg * volume z \<and> 0.3 \<le> intensity z \<and> intensity z \<le> 1"
      using spec_spikes_sign_and_strength [of _ levels ty] by blast
    from spec_greedy_signed_volume [OF this] obtain out where
      "spec_greedy r xs = Some out" "\<forall>z \<in> set out. 0.3 \<le> intensity z \<and> intensity z \<le> 1"
      by blast
    with False Cons show ?thesis
      by (simp add: findVolumeSpikes_spec mergeNearbyZones_spec spec_mergeNearby_def)
  qed
qed

subsection \<open>Merging with rounding\<close>

lemma binade_numeral:
  "binade (numeral k) x =
     (if 2 \<le> x then binade (pred_numeral k) (x / 2) + 1
      else if x < 1 then binade (pred_numeral k) (x * 2) - 1
      else 0)"
  by (simp add: numeral_eq_Suc)

text \<open>With the rounding \<^const>\<open>Some\<close> the rounded model is the exact one.\<close>

lemma withinClusteringDistance_rounded_exact:
  "withinClusteringDistance_rounded Some current nxt = withinClusteringDistance current nxt"
  by (simp add: withinClusteringDistance_rounded_def withinClusteringDistance_def)

lemma mergeLoop_rounded_exact:
  "mergeLoop_rounded Some merged current rest = mergeLoop merged current rest"
  by (induction rest arbitrary: merged current)
    (simp_all add: withinClusteringDistance_rounded_exact Let_def)

lemma mergeNearbyZones_rounded_exact:
  "mergeNearbyZones_rounded Some zones = mergeNearbyZones zones"
  by (simp add: mergeNearbyZones_rounded_def mergeNearbyZones_def mergeLoop_rounded_exact)

text \<open>
  Every merge shortens the result by one zone; the loop returns a list of full length
  exactly when it merges nothing.
\<close>

lemma mergeLoop_rounded_length:
  "mergeLoop_rounded rnd merged current rest = Some out
   \<Longrightarrow> length out \<le> length merged + 1 + length rest"
proof (induction rest arbitrary: merged current)
  case Nil
  then show ?case by auto
next
  case (Cons nxt rest)
  show ?case
  proof (cases "withinClusteringDistance_rounded rnd current nxt
      \<and> zone_type current = zone_type nxt")
    case True
    with Cons.prems obtain z where "mergeLoop_rounded rnd merged z rest = Some out"
      by (auto split: option.splits if_splits)
    from Cons.IH [OF this] show ?thesis by simp
  next
    case False
    with Cons.prems have "mergeLoop_rounded rnd (merged @ [current]) nxt rest = Some out"
      by auto
    from Cons.IH [OF this] show ?thesis by simp
  qed
qed

lemma mergeLoop_rounded_separated:
  "separated rnd (current # rest)
   \<Longrightarrow> mergeLoop_rounded rnd merged current rest = Some (merged @ current # rest)"
  by (induction rest arbitrary: merged current) auto

lemma mergeLoop_rounded_full_length:
  "mergeLoop_rounded rnd merged current rest = Some out
   \<Longrightarrow> length out = length merged + 1 + length rest
   \<Longrightarrow> separated rnd (current # rest)"
proof (induction rest arbitrary: merged current)
  case Nil
  then show ?case by simp
next
  case (Cons nxt rest)
  show ?case
  proof (cases "withinClusteringDistance_rounded rnd current nxt
      \<and> zone_type current = zone_type nxt")
    case True
    with Cons.prems(1) obtain z where "mergeLoop_rounded rnd merged z rest = Some out"
      by (auto split: option.splits if_splits)
    from mergeLoop_rounded_length [OF this] Cons.prems(2) show ?thesis by simp
  next
    case False
    with Cons.prems(1) have m: "mergeLoop_rounded rnd (merged @ [current]) nxt rest = Some out"
      by auto
    from Cons.IH [OF m] Cons.prems(2) have "separated rnd (nxt # rest)" by simp
    with False show ?thesis by simp
  qed
qed

lemma mergeNearbyZones_rounded_fixpoint_iff:
  "mergeNearbyZones_rounded rnd zones = Some zones
   \<longleftrightarrow> sorted (map zone_price zones) \<and> separated rnd zones"
proof (cases "length zones \<le> 1")
  case True
  then have "zones = [] \<or> (\<exists>z. zones = [z])"
    by (cases zones) (auto simp: length_Suc_conv)
  then show ?thesis by (auto simp: mergeNearbyZones_rounded_def)
next
  case False
  define s where "s = sort_key zone_price zones"
  have len: "length s = length zones" by (simp add: s_def)
  with False obtain first rest where s: "s = first # rest" by (cases s) auto
  have m: "mergeNearbyZones_rounded rnd zones = mergeLoop_rounded rnd [] first rest"
    using False by (simp add: mergeNearbyZones_rounded_def s_def [symmetric] s)
  show ?thesis
  proof
    assume fx: "mergeNearbyZones_rounded rnd zones = Some zones"
    then have l: "mergeLoop_rounded rnd [] first rest = Some zones" by (simp add: m)
    have "length zones = length ([] :: PressureZone list) + 1 + length rest"
      using len s by simp
    from mergeLoop_rounded_full_length [OF l this] have sep: "separated rnd (first # rest)" .
    from mergeLoop_rounded_separated [OF sep, of "[]"] l have "zones = s" by (simp add: s)
    moreover have "sorted (map zone_price s)" by (simp add: s_def)
    ultimately show "sorted (map zone_price zones) \<and> separated rnd zones"
      using sep s by simp
  next
    assume a: "sorted (map zone_price zones) \<and> separated rnd zones"
    then have "s = zones" by (simp add: s_def sort_key_id_if_sorted)
    with a s have "separated rnd (first # rest)" by simp
    from mergeLoop_rounded_separated [OF this, of "[]"] \<open>s = zones\<close> s m
    show "mergeNearbyZones_rounded rnd zones = Some zones" by simp
  qed
qed

lemma mergeNearbyZones_rounded_exact_fixpoint:
  assumes "\<forall>z \<in> set zones. 0 < sg * volume z"
  shows "\<exists>out. mergeNearbyZones_rounded Some zones = Some out
           \<and> mergeNearbyZones_rounded Some out = Some out"
  unfolding mergeNearbyZones_rounded_exact mergeNearbyZones_spec
  using spec_mergeNearby_fixpoint [OF assms] .

subsection \<open>Spike detection\<close>

text \<open>
  C1. With fewer than 3 levels \<open>findVolumeSpikes\<close> returns the empty list. Otherwise,
  with \<open>avg\<close> the mean quantity over all levels and threshold \<open>avg * 1.5\<close>, its loop
  produces a candidate zone exactly for each interior index \<open>i\<close> (the first and the last
  level excluded) whose quantity exceeds the threshold and 1.3 times the quantity of both
  neighbours, with intensity \<open>min(quantity[i] / (avg * 3), 1)\<close>, and keeps the candidate
  only if its intensity is at least 0.3; each kept zone carries the level's price, the
  given side and the level's quantity as volume (this is \<^const>\<open>spec_spikes\<close>). The
  function hands the kept zones to \<open>mergeNearbyZones\<close> and returns the outcome.
\<close>

theorem findVolumeSpikes_candidates:
  "(length levels < 3 \<longrightarrow> findVolumeSpikes levels ty = Some [])
   \<and> (3 \<le> length levels \<longrightarrow>
        findVolumeSpikes levels ty = mergeNearbyZones (spec_spikes levels ty))"
  by (simp add: findVolumeSpikes_spec)

theorem findVolumeSpikes_witness:
  "findVolumeSpikes
     [\<lparr>price = 100, quantity = 1, total = 1, timestamp = 0\<rparr>,
      \<lparr>price = 99, quantity = 5, total = 5, timestamp = 0\<rparr>,
      \<lparr>price = 98, quantity = 1, total = 1, timestamp = 0\<rparr>] support
   = Some [\<lparr>zone_price = 99, intensity = 5 / 7, zone_type = support, volume = 5\<rparr>]
   \<and> findVolumeSpikes
     [\<lparr>price = 100, quantity = 1, total = 1, timestamp = 0\<rparr>,
      \<lparr>price = 99, quantity = 5, total = 5, timestamp = 0\<rparr>] support = Some []"
  using findVolumeSpikes_candidates
      [of "[\<lparr>price = 100, quantity = 1, total = 1, timestamp = 0\<rparr>,
            \<lparr>price = 99, quantity = 5, total = 5, timestamp = 0\<rparr>,
            \<lparr>price = 98, quantity = 1, total = 1, timestamp = 0\<rparr>]" support]
    findVolumeSpikes_candidates
      [of "[\<lparr>price = 100, quantity = 1, total = 1, timestamp = 0\<rparr>,
            \<lparr>price = 99, quantity = 5, total = 5, timestamp = 0\<rparr>]" support]
  by (simp add: spec_spikes_def spec_zone_def spec_candidate_def spec_intensity_def
      spec_avg_def mergeNearbyZones_def upt_rec)

subsection \<open>Merging nearby zones\<close>

text \<open>
  C2. \<open>mergeNearbyZones\<close> sorts the zones by price ascending and then makes a single
  left-to-right greedy pass (\<^const>\<open>spec_mergeNearby\<close>): the running zone is merged with
  the next zone exactly when both have the same side and
  \<open>|next.price - running.price| / running.price <= 0.001\<close>, the merged zone having volume
  \<open>v1 + v2\<close>, the volume-weighted price and the larger intensity, and a zone that does not
  merge makes the running zone be flushed unchanged. Hence a chain of pairwise-near zones
  of one side (positive prices and volumes, every two of them within the distance)
  collapses into one zone, which carries the total volume, the volume-weighted mean price
  and the largest intensity.
\<close>

theorem mergeNearbyZones_greedy_pass:
  "mergeNearbyZones zones = spec_mergeNearby zones
   \<and> (zones \<noteq> []
        \<and> (\<forall>a \<in> set zones. 0 < zone_price a \<and> 0 < volume a \<and> zone_type a = t)
        \<and> (\<forall>a \<in> set zones. \<forall>b \<in> set zones.
              \<bar>zone_price b - zone_price a\<bar> / zone_price a \<le> 0.001)
      \<longrightarrow> (\<exists>m. mergeNearbyZones zones = Some [m]
             \<and> zone_type m = t
             \<and> volume m = sum_list (map volume zones)
             \<and> zone_price m * volume m = sum_list (map (\<lambda>z. zone_price z * volume z) zones)
             \<and> intensity m = Max (intensity ` set zones)))"
proof (intro conjI impI)
  show "mergeNearbyZones zones = spec_mergeNearby zones"
    by (rule mergeNearbyZones_spec)
next
  assume a: "zones \<noteq> []
        \<and> (\<forall>a \<in> set zones. 0 < zone_price a \<and> 0 < volume a \<and> zone_type a = t)
        \<and> (\<forall>a \<in> set zones. \<forall>b \<in> set zones.
              \<bar>zone_price b - zone_price a\<bar> / zone_price a \<le> 0.001)"
  then have ne: "zones \<noteq> []"
    and wf: "\<forall>a \<in> set zones. 0 < zone_price a \<and> 0 < volume a \<and> zone_type a = t"
    and near: "\<forall>a \<in> set zones. \<forall>b \<in> set zones.
        \<bar>zone_price b - zone_price a\<bar> / zone_price a \<le> 0.001"
    by blast+
  from spec_mergeNearby_collapse [OF ne wf near]
  show "\<exists>m. mergeNearbyZones zones = Some [m]
             \<and> zone_type m = t
             \<and> volume m = sum_list (map volume zones)
             \<and> zone_price m * volume m = sum_list (map (\<lambda>z. zone_price z * volume z) zones)
             \<and> intensity m = Max (intensity ` set zones)"
    unfolding mergeNearbyZones_spec .
qed

theorem mergeNearbyZones_greedy_pass_witness:
  "mergeNearbyZones
     [\<lparr>zone_price = 100.05, intensity = 0.7, zone_type = support, volume = 7\<rparr>,
      \<lparr>zone_price = 100, intensity = 0.5, zone_type = support, volume = 3\<rparr>]
   = Some [\<lparr>zone_price = 100.035, intensity = 0.7, zone_type = support, volume = 10\<rparr>]
   \<and> spec_mergeNearby
     [\<lparr>zone_price = 100.05, intensity = 0.7, zone_type = support, volume = 7\<rparr>,
      \<lparr>zone_price = 100, intensity = 0.5, zone_type = support, volume = 3\<rparr>]
   = Some [\<lparr>zone_price = 100.035, intensity = 0.7, zone_type = support, volume = 10\<rparr>]"
proof -
  let ?zs = "[\<lparr>zone_price = 100.05, intensity = 0.7, zone_type = support, volume = 7\<rparr>,
      \<lparr>zone_price = 100, intensity = 0.5, zone_type = support, volume = 3\<rparr>]"
  have pre: "?zs \<noteq> []
      \<and> (\<forall>a \<in> set ?zs. 0 < zone_price a \<and> 0 < volume a \<and> zone_type a = support)
      \<and> (\<forall>a \<in> set ?zs. \<forall>b \<in> set ?zs.
            \<bar>zone_price b - zone_price a\<bar> / zone_price a \<le> 0.001)"
    by simp
  have ev: "spec_mergeNearby ?zs
      = Some [\<lparr>zone_price = 100.035, intensity = 0.7, zone_type = support, volume = 10\<rparr>]"
    by (simp add: spec_mergeNearby_def spec_near_def spec_merge_def)
  from mergeNearbyZones_greedy_pass [of ?zs support] pre
  have "mergeNearbyZones ?zs = spec_mergeNearby ?zs" by blast
  with ev show ?thesis by simp
qed

subsection \<open>A second application\<close>

text \<open>
  C5, as the claim states it, fails. In double arithmetic: the zones at the doubles
  nearest to 1.37 (volume 1) and to 1.3713700000000002 (volumes 1 and 2), all of one side,
  are merged into two zones, since the two equal prices get the weighted price 1.37137,
  one unit in the last place below them; a second application finds that zone within the
  distance of the first and returns a single zone. In exact arithmetic the same happens
  where volumes of both signs pull a weighted price to the left: the zones at 99.95,
  100.1 and 100.18 with volumes 1, 2 and -1 give two zones and then one.
\<close>

theorem mergeNearbyZones_not_idempotent:
  "round64 (1542482872374395 / 1125899906842624) = Some (1542482872374395 / 1125899906842624)
   \<and> round64 (3088050710493539 / 2251799813685248) = Some (3088050710493539 / 2251799813685248)
   \<and> mergeNearbyZones_rounded round64
     [\<lparr>zone_price = 1542482872374395 / 1125899906842624, intensity = 1 / 2,
       zone_type = support, volume = 1\<rparr>,
      \<lparr>zone_price = 3088050710493539 / 2251799813685248, intensity = 1 / 2,
       zone_type = support, volume = 1\<rparr>,
      \<lparr>zone_price = 3088050710493539 / 2251799813685248, intensity = 1 / 2,
       zone_type = support, volume = 2\<rparr>]
     = Some
       [\<lparr>zone_price = 1542482872374395 / 1125899906842624, intensity = 1 / 2,
         zone_type = support, volume = 1\<rparr>,
        \<lparr>zone_price = 6176101420987077 / 4503599627370496, intensity = 1 / 2,
         zone_type = support, volume = 3\<rparr>]
   \<and> mergeNearbyZones_rounded round64
     [\<lparr>zone_price = 1542482872374395 / 1125899906842624, intensity = 1 / 2,
       zone_type = support, volume = 1\<rparr>,
      \<lparr>zone_price = 6176101420987077 / 4503599627370496, intensity = 1 / 2,
       zone_type = support, volume = 3\<rparr>]
     = Some
       [\<lparr>zone_price = 6174558938114703 / 4503599627370496, intensity = 1 / 2,
         zone_type = support, volume = 4\<rparr>]
   \<and> mergeNearbyZones
     [\<lparr>zone_price = 99.95, intensity = 0.5, zone_type = support, volume = 1\<rparr>,
      \<lparr>zone_price = 100.1, intensity = 0.5, zone_type = support, volume = 2\<rparr>,
      \<lparr>zone_price = 100.18, intensity = 0.5, zone_type = support, volume = - 1\<rparr>]
     = Some
       [\<lparr>zone_price = 99.95, intensity = 0.5, zone_type = support, volume = 1\<rparr>,
        \<lparr>zone_price = 100.02, intensity = 0.5, zone_type = support, volume = 1\<rparr>]
   \<and> mergeNearbyZones
     [\<lparr>zone_price = 99.95, intensity = 0.5, zone_type = support, volume = 1\<rparr>,
      \<lparr>zone_price = 100.02, intensity = 0.5, zone_type = support, volume = 1\<rparr>]
     = Some
       [\<lparr>zone_price = 99.985, intensity = 0.5, zone_type = support, volume = 2\<rparr>]"
proof (intro conjI)
  show "round64 (1542482872374395 / 1125899906842624)
      = Some (1542482872374395 / 1125899906842624)"
    by (simp add: round64_def binade_numeral roundTiesToEven_def scale2_def Let_def)
  show "round64 (3088050710493539 / 2251799813685248)
      = Some (3088050710493539 / 2251799813685248)"
    by (simp add: round64_def binade_numeral roundTiesToEven_def scale2_def Let_def)
  show "mergeNearbyZones_rounded round64
     [\<lparr>zone_price = 1542482872374395 / 1125899906842624, intensity = 1 / 2,
       zone_type = support, volume = 1\<rparr>,
      \<lparr>zone_price = 3088050710493539 / 2251799813685248, intensity = 1 / 2,
       zone_type = support, volume = 1\<rparr>,
      \<lparr>zone_price = 3088050710493539 / 2251799813685248, intensity = 1 / 2,
       zone_type = support, volume = 2\<rparr>]
     = Some
       [\<lparr>zone_price = 1542482872374395 / 1125899906842624, intensity = 1 / 2,
         zone_type = support, volume = 1\<rparr>,
        \<lparr>zone_price = 6176101420987077 / 4503599627370496, intensity = 1 / 2,
         zone_type = support, volume = 3\<rparr>]"
    by (simp add: mergeNearbyZones_rounded_def withinClusteringDistance_rounded_def
        CLUSTERING_DISTANCE_def round64_def binade_numeral roundTiesToEven_def scale2_def
        Let_def)
  show "mergeNearbyZones_rounded round64
     [\<lparr>zone_price = 1542482872374395 / 1125899906842624, intensity = 1 / 2,
       zone_type = support, volume = 1\<rparr>,
      \<lparr>zone_price = 6176101420987077 / 4503599627370496, intensity = 1 / 2,
       zone_type = support, volume = 3\<rparr>]
     = Some
       [\<lparr>zone_price = 6174558938114703 / 4503599627370496, intensity = 1 / 2,
         zone_type = support, volume = 4\<rparr>]"
    by (simp add: mergeNearbyZones_rounded_def withinClusteringDistance_rounded_def
        CLUSTERING_DISTANCE_def round64_def binade_numeral roundTiesToEven_def scale2_def
        Let_def)
  show "mergeNearbyZones
     [\<lparr>zone_price = 99.95, intensity = 0.5, zone_type = support, volume = 1\<rparr>,
      \<lparr>zone_price = 100.1, intensity = 0.5, zone_type = support, volume = 2\<rparr>,
      \<lparr>zone_price = 100.18, intensity = 0.5, zone_type = support, volume = - 1\<rparr>]
     = Some
       [\<lparr>zone_price = 99.95, intensity = 0.5, zone_type = support, volume = 1\<rparr>,
        \<lparr>zone_price = 100.02, intensity = 0.5, zone_type = support, volume = 1\<rparr>]"
    by (simp add: mergeNearbyZones_def withinClusteringDistance_def CLUSTERING_DISTANCE_def)
  show "mergeNearbyZones
     [\<lparr>zone_price = 99.95, intensity = 0.5, zone_type = support, volume = 1\<rparr>,
      \<lparr>zone_price = 100.02, intensity = 0.5, zone_type = support, volume = 1\<rparr>]
     = Some
       [\<lparr>zone_price = 99.985, intensity = 0.5, zone_type = support, volume = 2\<rparr>]"
    by (simp add: mergeNearbyZones_def withinClusteringDistance_def CLUSTERING_DISTANCE_def)
qed

text \<open>
  C5, amended. Whatever the rounding, \<open>mergeNearbyZones\<close> returns a list of zones
  unchanged exactly when the list is in ascending order of price and no zone of it is
  within the clustering distance of its left neighbour while both are of the same side;
  so a second application yields the same list as the first exactly when the first
  output is such a list. In exact arithmetic it is, for every list of zones whose
  volumes are all positive or all negative: there applying \<open>mergeNearbyZones\<close> to its
  own output yields the same list as applying it once.
\<close>

theorem mergeNearbyZones_second_application:
  "(mergeNearbyZones_rounded rnd out = Some out
      \<longleftrightarrow> sorted (map zone_price out) \<and> separated rnd out)
   \<and> ((\<forall>z \<in> set zones. 0 < volume z) \<or> (\<forall>z \<in> set zones. volume z < 0) \<longrightarrow>
        (\<exists>once. mergeNearbyZones_rounded Some zones = Some once
           \<and> mergeNearbyZones_rounded Some once = Some once))"
proof (intro conjI impI)
  show "mergeNearbyZones_rounded rnd out = Some out
      \<longleftrightarrow> sorted (map zone_price out) \<and> separated rnd out"
    by (rule mergeNearbyZones_rounded_fixpoint_iff)
next
  assume "(\<forall>z \<in> set zones. 0 < volume z) \<or> (\<forall>z \<in> set zones. volume z < 0)"
  then have "(\<forall>z \<in> set zones. 0 < 1 * volume z) \<or> (\<forall>z \<in> set zones. 0 < - 1 * volume z)"
    by simp
  then show "\<exists>once. mergeNearbyZones_rounded Some zones = Some once
      \<and> mergeNearbyZones_rounded Some once = Some once"
    using mergeNearbyZones_rounded_exact_fixpoint by blast
qed

text \<open>
  The witness: in double arithmetic the zones at 1.37 and 1.3713700000000002 are further
  apart than the distance and come back unchanged; in exact arithmetic the scenario of the
  specification with a resistance zone added gives two zones, and these come back
  unchanged.
\<close>

theorem mergeNearbyZones_second_application_witness:
  "mergeNearbyZones_rounded round64
     [\<lparr>zone_price = 1542482872374395 / 1125899906842624, intensity = 1 / 2,
       zone_type = support, volume = 1\<rparr>,
      \<lparr>zone_price = 3088050710493539 / 2251799813685248, intensity = 1 / 2,
       zone_type = support, volume = 1\<rparr>]
     = Some
       [\<lparr>zone_price = 1542482872374395 / 1125899906842624, intensity = 1 / 2,
         zone_type = support, volume = 1\<rparr>,
        \<lparr>zone_price = 3088050710493539 / 2251799813685248, intensity = 1 / 2,
         zone_type = support, volume = 1\<rparr>]
   \<and> mergeNearbyZones_rounded Some
     [\<lparr>zone_price = 100.05, intensity = 0.7, zone_type = support, volume = 7\<rparr>,
      \<lparr>zone_price = 101, intensity = 0.4, zone_type = resistance, volume = 2\<rparr>,
      \<lparr>zone_price = 100, intensity = 0.5, zone_type = support, volume = 3\<rparr>]
     = Some [\<lparr>zone_price = 100.035, intensity = 0.7, zone_type = support, volume = 10\<rparr>,
             \<lparr>zone_price = 101, intensity = 0.4, zone_type = resistance, volume = 2\<rparr>]
   \<and> mergeNearbyZones_rounded Some
     [\<lparr>zone_price = 100.035, intensity = 0.7, zone_type = support, volume = 10\<rparr>,
      \<lparr>zone_price = 101, intensity = 0.4, zone_type = resistance, volume = 2\<rparr>]
     = Some [\<lparr>zone_price = 100.035, intensity = 0.7, zone_type = support, volume = 10\<rparr>,
             \<lparr>zone_price = 101, intensity = 0.4, zone_type = resistance, volume = 2\<rparr>]"
proof -
  let ?far = "[\<lparr>zone_price = 1542482872374395 / 1125899906842624, intensity = 1 / 2,
       zone_type = support, volume = 1\<rparr>,
      \<lparr>zone_price = 3088050710493539 / 2251799813685248, intensity = 1 / 2,
       zone_type = support, volume = 1\<rparr>]"
  let ?zs = "[\<lparr>zone_price = 100.05, intensity = 0.7, zone_type = support, volume = 7\<rparr>,
      \<lparr>zone_price = 101, intensity = 0.4, zone_type = resistance, volume = 2\<rparr>,
      \<lparr>zone_price = 100, intensity = 0.5, zone_type = support, volume = 3\<rparr>]"
  have far: "sorted (map zone_price ?far) \<and> separated round64 ?far"
    by (simp add: withinClusteringDistance_rounded_def CLUSTERING_DISTANCE_def round64_def
        binade_numeral roundTiesToEven_def scale2_def Let_def)
  have ev: "mergeNearbyZones_rounded Some ?zs
      = Some [\<lparr>zone_price = 100.035, intensity = 0.7, zone_type = support, volume = 10\<rparr>,
              \<lparr>zone_price = 101, intensity = 0.4, zone_type = resistance, volume = 2\<rparr>]"
    by (simp add: mergeNearbyZones_rounded_def withinClusteringDistance_rounded_def
        CLUSTERING_DISTANCE_def)
  have sign: "(\<forall>z \<in> set ?zs. 0 < volume z) \<or> (\<forall>z \<in> set ?zs. volume z < 0)" by simp
  note inst = mergeNearbyZones_second_application [where rnd = round64 and out = ?far and zones = ?zs]
  from inst far have one: "mergeNearbyZones_rounded round64 ?far = Some ?far" by blast
  from inst sign have "\<exists>once. mergeNearbyZones_rounded Some ?zs = Some once
      \<and> mergeNearbyZones_rounded Some once = Some once"
    by blast
  with ev one show ?thesis by auto
qed

subsection \<open>Intensity range\<close>

text \<open>
  C10. For any input, \<open>analyzePressureZones\<close> returns a list, and every pressure zone in
  it has its intensity in the closed interval from 0.3 to 1: \<open>findVolumeSpikes\<close> clamps
  the intensity at 1 and discards candidates below 0.3, and a merge takes the maximum of
  two intensities, which keeps both bounds.
\<close>

theorem analyzePressureZones_intensity_range:
  "\<exists>zones. analyzePressureZones now orderBookData = Some zones
     \<and> (\<forall>z \<in> set zones. 0.3 \<le> intensity z \<and> intensity z \<le> 1)"
proof (cases "length orderBookData = 0")
  case True
  then show ?thesis by (simp add: analyzePressureZones_def)
next
  case False
  let ?all = "combineOrderBookLevels now orderBookData"
  from findVolumeSpikes_total_bounded [of "fst ?all" support] obtain sz where
    sz: "findVolumeSpikes (fst ?all) support = Some sz"
      "\<forall>z \<in> set sz. 0.3 \<le> intensity z \<and> intensity z \<le> 1" by blast
  from findVolumeSpikes_total_bounded [of "snd ?all" resistance] obtain rz where
    rz: "findVolumeSpikes (snd ?all) resistance = Some rz"
      "\<forall>z \<in> set rz. 0.3 \<le> intensity z \<and> intensity z \<le> 1" by blast
  have "analyzePressureZones now orderBookData
      = Some (sort_key (\<lambda>z. - intensity z) (sz @ rz))"
    using False sz(1) rz(1) by (simp add: analyzePressureZones_def Let_def)
  moreover have "\<forall>z \<in> set (sort_key (\<lambda>z. - intensity z) (sz @ rz)).
      0.3 \<le> intensity z \<and> intensity z \<le> 1"
    using sz(2) rz(2) by auto
  ultimately show ?thesis by blast
qed

theorem analyzePressureZones_intensity_range_witness:
  "analyzePressureZones 0
     [\<lparr>bids = [\<lparr>price = 100, quantity = 1, total = 1, timestamp = 0\<rparr>,
               \<lparr>price = 99, quantity = 5, total = 6, timestamp = 0\<rparr>,
               \<lparr>price = 98, quantity = 1, total = 7, timestamp = 0\<rparr>],
       asks = [], symbol = ''BTCUSDT'', venue = ''binance'', data_timestamp = 0\<rparr>]
   = Some [\<lparr>zone_price = 99, intensity = 5 / 7, zone_type = support, volume = 5\<rparr>]
   \<and> 0.3 \<le> intensity \<lparr>zone_price = 99, intensity = 5 / 7, zone_type = support, volume = 5\<rparr>
   \<and> intensity \<lparr>zone_price = 99, intensity = 5 / 7, zone_type = support, volume = 5\<rparr> \<le> 1"
proof -
  let ?d = "[\<lparr>bids = [\<lparr>price = 100, quantity = 1, total = 1, timestamp = 0\<rparr>,
               \<lparr>price = 99, quantity = 5, total = 6, timestamp = 0\<rparr>,
               \<lparr>price = 98, quantity = 1, total = 7, timestamp = 0\<rparr>],
       asks = [], symbol = ''BTCUSDT'', venue = ''binance'', data_timestamp = 0\<rparr>]"
  let ?z = "\<lparr>zone_price = 99, intensity = 5 / 7, zone_type = support, volume = 5\<rparr>"
  have levels: "combineOrderBookLevels 0 ?d =
      ([\<lparr>price = 100, quantity = 1, total = 1, timestamp = 0\<rparr>,
        \<lparr>price = 99, quantity = 5, total = 5, timestamp = 0\<rparr>,
        \<lparr>price = 98, quantity = 1, total = 1, timestamp = 0\<rparr>], [])"
    by (simp add: combineOrderBookLevels_def addLevel_def mathRound_def)
  have ev: "analyzePressureZones 0 ?d = Some [?z]"
    by (simp add: analyzePressureZones_def levels findVolumeSpikes_spec spec_spikes_def
        spec_zone_def spec_candidate_def spec_intensity_def spec_avg_def mergeNearbyZones_def
        upt_rec)
  from analyzePressureZones_intensity_range [of 0 ?d] obtain zones where
    "analyzePressureZones 0 ?d = Some zones"
    "\<forall>z \<in> set zones. 0.3 \<le> intensity z \<and> intensity z \<le> 1"
    by blast
  with ev have "0.3 \<le> intensity ?z \<and> intensity ?z \<le> 1" by simp
  with ev show ?thesis by blast
qed

section \<open>Properties of the service\<close>

subsection \<open>What each method leaves unchanged\<close>

lemma primitives_frame [simp]:
  "subscribers (setTimeout tsk ms s) = subscribers s"
  "subscribers (setInterval tsk ms s) = subscribers s"
  "subscribers (clearTimer t s) = subscribers s"
  "subscribers (closeSocket w s) = subscribers s"
  "subscribers (setReadyState w st s) = subscribers s"
  "handles (setTimeout tsk ms s) = handles s"
  "handles (setInterval tsk ms s) = handles s"
  "handles (clearTimer t s) = handles s"
  "handles (closeSocket w s) = handles s"
  "handles (setReadyState w st s) = handles s"
  "delivered (setTimeout tsk ms s) = delivered s"
  "delivered (setInterval tsk ms s) = delivered s"
  "delivered (clearTimer t s) = delivered s"
  "delivered (closeSocket w s) = delivered s"
  "delivered (setReadyState w st s) = delivered s"
  "reconnectAttempts (setTimeout tsk ms s) = reconnectAttempts s"
  "reconnectAttempts (setInterval tsk ms s) = reconnectAttempts s"
  "reconnectAttempts (clearTimer t s) = reconnectAttempts s"
  "reconnectAttempts (closeSocket w s) = reconnectAttempts s"
  "reconnectAttempts (setReadyState w st s) = reconnectAttempts s"
  "wsConnections (setTimeout tsk ms s) = wsConnections s"
  "wsConnections (setInterval tsk ms s) = wsConnections s"
  "wsConnections (clearTimer t s) = wsConnections s"
  "wsConnections (closeSocket w s) = wsConnections s"
  "wsConnections (setReadyState w st s) = wsConnections s"
  by (simp_all add: setTimeout_def setInterval_def clearTimer_def closeSocket_def
      setReadyState_def)

lemma primitives_timers [simp]:
  "timers (setTimeout tsk ms s) =
     timers s @ [\<lparr>task = tsk, delay = ms, repeating = False, pending = True\<rparr>]"
  "timers (setInterval tsk ms s) =
     timers s @ [\<lparr>task = tsk, delay = ms, repeating = True, pending = True\<rparr>]"
  "timers (closeSocket w s) = timers s"
  "timers (setReadyState w st s) = timers s"
  "map task (timers (clearTimer t s)) = map task (timers s)"
  "length (timers (clearTimer t s)) = length (timers s)"
  by (simp_all add: setTimeout_def setInterval_def clearTimer_def closeSocket_def
      setReadyState_def map_update list_update_same_conv)

lemma primitives_sockets [simp]:
  "sockets (setTimeout tsk ms s) = sockets s"
  "sockets (setInterval tsk ms s) = sockets s"
  "sockets (clearTimer t s) = sockets s"
  "length (sockets (closeSocket w s)) = length (sockets s)"
  "length (sockets (setReadyState w st s)) = length (sockets s)"
  by (simp_all add: setTimeout_def setInterval_def clearTimer_def closeSocket_def
      setReadyState_def)

lemma notifySubscribers_frame [simp]:
  "subscribers (notifySubscribers key data s) = subscribers s"
  "handles (notifySubscribers key data s) = handles s"
  "reconnectAttempts (notifySubscribers key data s) = reconnectAttempts s"
  "wsConnections (notifySubscribers key data s) = wsConnections s"
  "timers (notifySubscribers key data s) = timers s"
  "sockets (notifySubscribers key data s) = sockets s"
  by (simp_all add: notifySubscribers_def split: option.splits)

lemma startMockDataFeed_frame [simp]:
  "subscribers (startMockDataFeed v sy s) = subscribers s"
  "handles (startMockDataFeed v sy s) = handles s"
  "delivered (startMockDataFeed v sy s) = delivered s"
  "reconnectAttempts (startMockDataFeed v sy s) = reconnectAttempts s"
  "sockets (startMockDataFeed v sy s) = sockets s"
  "timers (startMockDataFeed v sy s) =
     timers s @ [\<lparr>task = MockFeed v sy, delay = 3000, repeating = True, pending = True\<rparr>]"
  by (simp_all add: startMockDataFeed_def Let_def)

lemma connectToWebSocket_frame [simp]:
  "subscribers (connectToWebSocket v sy url s) = subscribers s"
  "handles (connectToWebSocket v sy url s) = handles s"
  "delivered (connectToWebSocket v sy url s) = delivered s"
  "reconnectAttempts (connectToWebSocket v sy url s) = reconnectAttempts s"
  "timers (connectToWebSocket v sy url s) =
     timers s @ [\<lparr>task = ConnectionTimeout (length (sockets s)) v sy, delay = 10000,
                  repeating = False, pending = True\<rparr>]"
  by (simp_all add: connectToWebSocket_def Let_def split: option.splits connection.splits)

lemma connectToBinance_frame [simp]:
  "subscribers (connectToBinance sy s) = subscribers s"
  "handles (connectToBinance sy s) = handles s"
  "delivered (connectToBinance sy s) = delivered s"
  "reconnectAttempts (connectToBinance sy s) = reconnectAttempts s"
  "timers (connectToBinance sy s) =
     timers s @ [\<lparr>task = ConnectionTimeout (length (sockets s)) ''binance'' sy, delay = 10000,
                  repeating = False, pending = True\<rparr>]"
  by (simp_all add: connectToBinance_def Let_def)

lemma handleReconnect_frame [simp]:
  "subscribers (handleReconnect key v sy url s) = subscribers s"
  "handles (handleReconnect key v sy url s) = handles s"
  "delivered (handleReconnect key v sy url s) = delivered s"
  by (simp_all add: handleReconnect_def Let_def)

lemma disconnect_frame [simp]:
  "handles (disconnect v sy s) = handles s"
  "delivered (disconnect v sy s) = delivered s"
  "map task (timers (disconnect v sy s)) = map task (timers s)"
  by (simp_all add: disconnect_def Let_def split: option.splits connection.splits)

lemma ws_handlers_frame [simp]:
  "subscribers (ws_onopen w s) = subscribers s"
  "handles (ws_onopen w s) = handles s"
  "delivered (ws_onopen w s) = delivered s"
  "subscribers (ws_onclose w code s) = subscribers s"
  "handles (ws_onclose w code s) = handles s"
  "delivered (ws_onclose w code s) = delivered s"
  "subscribers (ws_onerror w s) = subscribers s"
  "handles (ws_onerror w s) = handles s"
  "delivered (ws_onerror w s) = delivered s"
  "subscribers (ws_onmessage pf w parsed now s) = subscribers s"
  "handles (ws_onmessage pf w parsed now s) = handles s"
  "reconnectAttempts (ws_onmessage pf w parsed now s) = reconnectAttempts s"
  "timers (ws_onmessage pf w parsed now s) = timers s"
  by (simp_all add: ws_onopen_def ws_onclose_def ws_onerror_def ws_onmessage_def Let_def
      split: option.splits)

lemma runTimer_frame [simp]:
  "subscribers (runTimer tsk random now s) = subscribers s"
  "handles (runTimer tsk random now s) = handles s"
  "reconnectAttempts (runTimer tsk random now s) = reconnectAttempts s"
  by (simp_all add: runTimer_def split: timer_task.splits)

subsection \<open>Subscriber count\<close>

lemma run_snoc: "run pf (es @ [e]) s = step pf e (run pf es s)"
  by (simp add: run_def)

lemma run_Nil: "run pf [] s = s"
  by (simp add: run_def)

lemma run_Cons: "run pf (e # es) s = run pf es (step pf e s)"
  by (simp add: run_def)

lemma listenerList_disconnect:
  "listenerList s (channelKey v sy) = [] \<Longrightarrow>
     listenerList (disconnect v sy s) key = listenerList s key"
  by (auto simp: listenerList_def disconnect_def Let_def
      split: option.splits connection.splits)

lemma subscribe_unfold:
  fixes v sy cb s
  defines "s1 \<equiv> s\<lparr>subscribers := (subscribers s)(channelKey v sy \<mapsto>
        (if cb \<in> set (listenerList s (channelKey v sy)) then listenerList s (channelKey v sy)
         else listenerList s (channelKey v sy) @ [cb]))\<rparr>"
  defines "s2 \<equiv> (if wsConnections s1 (channelKey v sy) = None
        then (if v = ''binance'' then connectToBinance sy s1 else startMockDataFeed v sy s1)
        else s1)"
  shows "subscribe v sy cb s =
      s2\<lparr>handles := handles s2 @
        [\<lparr>h_venue = v, h_symbol = sy, h_callback = cb, invoked = False\<rparr>]\<rparr>"
  unfolding subscribe_def Let_def s1_def s2_def listenerList_def by (rule refl)

lemma subscribers_subscribe:
  "subscribers (subscribe v sy cb s) =
     (subscribers s)(channelKey v sy \<mapsto>
        (if cb \<in> set (listenerList s (channelKey v sy)) then listenerList s (channelKey v sy)
         else listenerList s (channelKey v sy) @ [cb]))"
proof -
  define s1 where "s1 = s\<lparr>subscribers := (subscribers s)(channelKey v sy \<mapsto>
        (if cb \<in> set (listenerList s (channelKey v sy)) then listenerList s (channelKey v sy)
         else listenerList s (channelKey v sy) @ [cb]))\<rparr>"
  have "subscribers (subscribe v sy cb s) = subscribers s1"
    unfolding subscribe_unfold s1_def [symmetric] by simp
  then show ?thesis by (simp add: s1_def)
qed

lemma listenerList_subscribe:
  "listenerList (subscribe v sy cb s) key =
     (if key = channelKey v sy
      then (if cb \<in> set (listenerList s key) then listenerList s key
            else listenerList s key @ [cb])
      else listenerList s key)"
proof (cases "key = channelKey v sy")
  case True
  show ?thesis
    unfolding listenerList_def [of "subscribe v sy cb s"] subscribers_subscribe True
    by simp
next
  case False
  show ?thesis
    unfolding listenerList_def [of "subscribe v sy cb s"] subscribers_subscribe
    using False by (simp add: listenerList_def)
qed

lemma handles_subscribe:
  "handles (subscribe v sy cb s) =
     handles s @ [\<lparr>h_venue = v, h_symbol = sy, h_callback = cb, invoked = False\<rparr>]"
proof -
  define s1 where "s1 = s\<lparr>subscribers := (subscribers s)(channelKey v sy \<mapsto>
        (if cb \<in> set (listenerList s (channelKey v sy)) then listenerList s (channelKey v sy)
         else listenerList s (channelKey v sy) @ [cb]))\<rparr>"
  have "handles (subscribe v sy cb s) =
      handles s1 @ [\<lparr>h_venue = v, h_symbol = sy, h_callback = cb, invoked = False\<rparr>]"
    unfolding subscribe_unfold s1_def [symmetric] by simp
  then show ?thesis by (simp add: s1_def)
qed

lemma handles_unsubscribe: "handles (unsubscribe v sy cb s) = handles s"
  by (simp add: unsubscribe_def Let_def split: option.splits)

lemma listenerList_unsubscribe:
  "listenerList (unsubscribe v sy cb s) key =
     (if key = channelKey v sy then removeAll cb (listenerList s key)
      else listenerList s key)"
proof (cases "subscribers s (channelKey v sy)")
  case None
  then show ?thesis by (simp add: unsubscribe_def listenerList_def Let_def)
next
  case (Some cs)
  let ?s1 = "s\<lparr>subscribers := (subscribers s)(channelKey v sy \<mapsto> removeAll cb cs)\<rparr>"
  have l1: "listenerList ?s1 key =
      (if key = channelKey v sy then removeAll cb (listenerList s key) else listenerList s key)"
    using Some by (simp add: listenerList_def)
  show ?thesis
  proof (cases "removeAll cb cs = []")
    case True
    then have e: "listenerList ?s1 (channelKey v sy) = []" by (simp add: listenerList_def)
    have "unsubscribe v sy cb s = disconnect v sy ?s1"
      using Some True by (simp add: unsubscribe_def Let_def)
    then show ?thesis using listenerList_disconnect [OF e] l1 by simp
  next
    case False
    then have "unsubscribe v sy cb s = ?s1"
      using Some by (simp add: unsubscribe_def Let_def)
    then show ?thesis using l1 by simp
  qed
qed

lemma step_environment:
  assumes "\<And>v sy cb. e \<noteq> Subscribe v sy cb" "\<And>n. e \<noteq> InvokeUnsubscribe n"
  shows "subscribers (step pf e s) = subscribers s" and "handles (step pf e s) = handles s"
  using assms by (cases e; simp add: step_def Let_def)+

lemma live_callbacks_update:
  assumes "n < length hs" "handle_key (hs ! n) = key"
    and "distinct (map h_callback (filter (\<lambda>h. handle_key h = key) hs))"
  shows "map h_callback (filter (\<lambda>h. handle_key h = key \<and> \<not> invoked h)
             (hs[n := (hs ! n)\<lparr>invoked := True\<rparr>]))
       = removeAll (h_callback (hs ! n))
           (map h_callback (filter (\<lambda>h. handle_key h = key \<and> \<not> invoked h) hs))"
  using assms
proof (induction hs arbitrary: n)
  case Nil
  then show ?case by simp
next
  case (Cons x xs)
  have sub: "set (map h_callback (filter (\<lambda>h. handle_key h = key \<and> \<not> invoked h) xs))
      \<subseteq> set (map h_callback (filter (\<lambda>h. handle_key h = key) xs))"
    by auto
  show ?case
  proof (cases n)
    case 0
    with Cons.prems have "h_callback x \<notin> set (map h_callback (filter (\<lambda>h. handle_key h = key) xs))"
      by simp
    with sub have "h_callback x
        \<notin> set (map h_callback (filter (\<lambda>h. handle_key h = key \<and> \<not> invoked h) xs))"
      by blast
    then have "removeAll (h_callback x)
        (map h_callback (filter (\<lambda>h. handle_key h = key \<and> \<not> invoked h) xs))
        = map h_callback (filter (\<lambda>h. handle_key h = key \<and> \<not> invoked h) xs)"
      by (rule removeAll_id)
    with 0 Cons.prems show ?thesis by (simp add: handle_key_def)
  next
    case (Suc m)
    with Cons.prems have m: "m < length xs" "handle_key (xs ! m) = key"
      and d: "distinct (map h_callback (filter (\<lambda>h. handle_key h = key) xs))"
      by (simp_all split: if_splits)
    have "xs ! m \<in> set (filter (\<lambda>h. handle_key h = key) xs)" using m by simp
    then have mem: "h_callback (xs ! m) \<in> set (map h_callback (filter (\<lambda>h. handle_key h = key) xs))"
      by (simp only: set_map) (rule imageI)
    have ne: "handle_key x = key \<Longrightarrow> h_callback x \<noteq> h_callback (xs ! m)"
      using Cons.prems(3) mem by auto
    from Cons.IH [OF m d] Suc ne show ?thesis by (auto simp: handle_key_def)
  qed
qed

lemma live_callbacks_update_other:
  assumes "n < length hs" "handle_key (hs ! n) \<noteq> key"
  shows "filter (\<lambda>h. handle_key h = key \<and> \<not> invoked h) (hs[n := (hs ! n)\<lparr>invoked := True\<rparr>])
       = filter (\<lambda>h. handle_key h = key \<and> \<not> invoked h) hs"
  using assms
proof (induction hs arbitrary: n)
  case Nil
  then show ?case by simp
next
  case (Cons x xs)
  then show ?case by (cases n) (simp_all add: handle_key_def)
qed

lemma key_callbacks_update:
  "map h_callback (filter (\<lambda>h. handle_key h = key) (hs[n := (hs ! n)\<lparr>invoked := True\<rparr>]))
     = map h_callback (filter (\<lambda>h. handle_key h = key) hs)"
proof (induction hs arbitrary: n)
  case Nil
  then show ?case by simp
next
  case (Cons x xs)
  then show ?case by (cases n) (simp_all add: handle_key_def)
qed

lemma count_invariant_step:
  assumes inv: "count_invariant s key"
    and fresh: "\<And>v sy cb. e = Subscribe v sy cb \<Longrightarrow> channelKey v sy = key \<Longrightarrow>
        cb \<notin> set (map h_callback (filter (\<lambda>h. handle_key h = key) (handles s)))"
  shows "count_invariant (step pf e s) key"
proof (cases e)
  case (Subscribe v sy cb)
  have st: "step pf e s = subscribe v sy cb s" using Subscribe by (simp add: step_def)
  show ?thesis
  proof (cases "channelKey v sy = key")
    case True
    from fresh [OF Subscribe True]
    have f: "cb \<notin> set (map h_callback (filter (\<lambda>h. handle_key h = key) (handles s)))" .
    then have "cb \<notin> set (map h_callback (liveHandles s key))"
      by (auto simp: liveHandles_def)
    then have "cb \<notin> set (listenerList s key)" using inv by (simp add: count_invariant_def)
    then show ?thesis
      using inv f True
      by (simp add: st count_invariant_def listenerList_subscribe handles_subscribe
          liveHandles_def handle_key_def)
  next
    case False
    then show ?thesis
      using inv
      by (auto simp: st count_invariant_def listenerList_subscribe handles_subscribe
          liveHandles_def handle_key_def)
  qed
next
  case (InvokeUnsubscribe n)
  show ?thesis
  proof (cases "n < length (handles s)")
    case False
    then show ?thesis using inv InvokeUnsubscribe by (simp add: step_def)
  next
    case True
    let ?h = "handles s ! n"
    let ?s1 = "s\<lparr>handles := (handles s)[n := ?h\<lparr>invoked := True\<rparr>]\<rparr>"
    have st: "step pf e s = unsubscribe (h_venue ?h) (h_symbol ?h) (h_callback ?h) ?s1"
      using InvokeUnsubscribe True by (simp add: step_def Let_def)
    have l1: "listenerList ?s1 key = listenerList s key" by (simp add: listenerList_def)
    have d: "distinct (map h_callback (filter (\<lambda>h. handle_key h = key) (handles s)))"
      using inv by (simp add: count_invariant_def)
    have ll: "listenerList s key = map h_callback (liveHandles s key)"
      using inv by (simp add: count_invariant_def)
    show ?thesis
    proof (cases "handle_key ?h = key")
      case k: True
      then have ck: "channelKey (h_venue ?h) (h_symbol ?h) = key" by (simp add: handle_key_def)
      show ?thesis
        unfolding count_invariant_def st
        using live_callbacks_update [OF True k d] d
        by (simp add: listenerList_unsubscribe handles_unsubscribe liveHandles_def l1
            ll [unfolded liveHandles_def] ck key_callbacks_update)
    next
      case k: False
      then have ck: "channelKey (h_venue ?h) (h_symbol ?h) \<noteq> key" by (simp add: handle_key_def)
      show ?thesis
        unfolding count_invariant_def st
        using live_callbacks_update_other [OF True k] d ck
        by (simp add: listenerList_unsubscribe handles_unsubscribe liveHandles_def l1
            ll [unfolded liveHandles_def] key_callbacks_update)
    qed
  qed
next
  case (WsOpen w)
  then show ?thesis
    using inv step_environment [of e pf s]
    by (simp add: count_invariant_def listenerList_def liveHandles_def)
next
  case (WsMessage w parsed now)
  then show ?thesis
    using inv step_environment [of e pf s]
    by (simp add: count_invariant_def listenerList_def liveHandles_def)
next
  case (WsClose w code)
  then show ?thesis
    using inv step_environment [of e pf s]
    by (simp add: count_invariant_def listenerList_def liveHandles_def)
next
  case (WsError w)
  then show ?thesis
    using inv step_environment [of e pf s]
    by (simp add: count_invariant_def listenerList_def liveHandles_def)
next
  case (TimerFires t random now)
  then show ?thesis
    using inv step_environment [of e pf s]
    by (simp add: count_invariant_def listenerList_def liveHandles_def)
qed

lemma key_callbacks_step:
  "map h_callback (filter (\<lambda>h. handle_key h = key) (handles (step pf e s)))
     = map h_callback (filter (\<lambda>h. handle_key h = key) (handles s)) @ subscribedListeners key [e]"
proof (cases e)
  case (Subscribe v sy cb)
  then show ?thesis by (simp add: step_def handles_subscribe handle_key_def)
next
  case (InvokeUnsubscribe n)
  then show ?thesis
    by (simp add: step_def Let_def handles_unsubscribe key_callbacks_update)
qed (simp_all add: step_environment)

lemma subscribedListeners_append:
  "subscribedListeners key (es @ fs) = subscribedListeners key es @ subscribedListeners key fs"
  by (induction key es rule: subscribedListeners.induct) simp_all

lemma count_invariant_run:
  assumes "distinct (subscribedListeners key es)"
  shows "count_invariant (run pf es newService) key
       \<and> map h_callback (filter (\<lambda>h. handle_key h = key) (handles (run pf es newService)))
           = subscribedListeners key es"
  using assms
proof (induction es rule: rev_induct)
  case Nil
  show ?case
    by (simp add: run_Nil count_invariant_def listenerList_def liveHandles_def newService_def)
next
  case (snoc e es)
  from snoc.prems have d: "distinct (subscribedListeners key es)"
    by (simp add: subscribedListeners_append)
  from snoc.IH [OF d] have inv: "count_invariant (run pf es newService) key"
    and hs: "map h_callback (filter (\<lambda>h. handle_key h = key) (handles (run pf es newService)))
        = subscribedListeners key es"
    by simp_all
  have fresh: "cb \<notin> set (map h_callback
      (filter (\<lambda>h. handle_key h = key) (handles (run pf es newService))))"
    if "e = Subscribe v sy cb" "channelKey v sy = key" for v sy cb
    using snoc.prems that unfolding hs by (simp add: subscribedListeners_append)
  have "count_invariant (step pf e (run pf es newService)) key"
    using inv fresh by (rule count_invariant_step)
  then show ?case
    by (simp add: run_snoc key_callbacks_step hs subscribedListeners_append)
qed

subsection \<open>Retry budget\<close>

lemma handleReconnect_below:
  assumes "attemptCount s key < maxReconnectAttempts"
  shows "reconnectAttempts (handleReconnect key v sy url s)
           = (reconnectAttempts s)(key \<mapsto> attemptCount s key + 1)"
    and "timers (handleReconnect key v sy url s)
           = timers s @ [\<lparr>task = Reconnect key v sy url,
                           delay = min (reconnectDelay * 2 ^ attemptCount s key) 30000,
                           repeating = False, pending = True\<rparr>]"
    and "wsConnections (handleReconnect key v sy url s) = wsConnections s"
    and "sockets (handleReconnect key v sy url s) = sockets s"
  using assms by (simp_all add: handleReconnect_def attemptCount_def Let_def)

lemma handleReconnect_exhausted:
  assumes "\<not> attemptCount s key < maxReconnectAttempts"
  shows "handleReconnect key v sy url s = startMockDataFeed v sy s"
  using assms by (simp add: handleReconnect_def attemptCount_def Let_def)

lemma retryBudget_cong:
  assumes "map task (timers s') = map task (timers s)"
    and "reconnectAttempts s' = reconnectAttempts s"
  shows "retryBudget s' key = retryBudget s key"
  using assms by (simp add: retryBudget_def retriesScheduled_def attemptCount_def)

lemma retryBudget_other_timer:
  assumes "map task (timers s') = map task (timers s) @ [tsk]" "\<not> isReconnectFor key tsk"
    and "reconnectAttempts s' = reconnectAttempts s"
  shows "retryBudget s' key = retryBudget s key"
  using assms by (simp add: retryBudget_def retriesScheduled_def attemptCount_def)

lemma retryBudget_handleReconnect:
  "retryBudget (handleReconnect k v sy url s) key \<le> retryBudget s key"
proof (cases "attemptCount s k < maxReconnectAttempts")
  case True
  have r: "retriesScheduled (handleReconnect k v sy url s) key
      = retriesScheduled s key + (if k = key then 1 else 0)"
    unfolding retriesScheduled_def handleReconnect_below(2) [OF True] by simp
  have a: "attemptCount (handleReconnect k v sy url s) key
      = attemptCount s key + (if k = key then 1 else 0)"
    unfolding attemptCount_def [of "handleReconnect k v sy url s"]
      handleReconnect_below(1) [OF True]
    by (simp add: attemptCount_def)
  show ?thesis
    using True unfolding retryBudget_def r a by auto
next
  case False
  show ?thesis
    unfolding handleReconnect_exhausted [OF False]
    by (simp add: retryBudget_other_timer [where tsk = "MockFeed v sy" and s = s and s' = "startMockDataFeed v sy s"])
qed

lemma retryBudget_clearTimer [simp]: "retryBudget (clearTimer t s) key = retryBudget s key"
  by (rule retryBudget_cong) simp_all

lemma retryBudget_setReadyState [simp]:
  "retryBudget (setReadyState w st s) key = retryBudget s key"
  by (rule retryBudget_cong) simp_all

lemma retryBudget_closeSocket [simp]: "retryBudget (closeSocket w s) key = retryBudget s key"
  by (rule retryBudget_cong) simp_all

lemma retryBudget_startMockDataFeed [simp]:
  "retryBudget (startMockDataFeed v sy s) key = retryBudget s key"
  by (rule retryBudget_other_timer [where tsk = "MockFeed v sy"]) simp_all

lemma retryBudget_connectToWebSocket [simp]:
  "retryBudget (connectToWebSocket v sy url s) key = retryBudget s key"
  by (rule retryBudget_other_timer [where tsk = "ConnectionTimeout (length (sockets s)) v sy"])
    simp_all

lemma retryBudget_notifySubscribers [simp]:
  "retryBudget (notifySubscribers k data s) key = retryBudget s key"
  by (rule retryBudget_cong) simp_all

lemma retryBudget_subscribe [simp]:
  "retryBudget (subscribe v sy cb s) key = retryBudget s key"
proof -
  define s1 where "s1 = s\<lparr>subscribers := (subscribers s)(channelKey v sy \<mapsto>
        (if cb \<in> set (listenerList s (channelKey v sy)) then listenerList s (channelKey v sy)
         else listenerList s (channelKey v sy) @ [cb]))\<rparr>"
  have 1: "retryBudget s1 key = retryBudget s key"
    by (simp add: s1_def retryBudget_def retriesScheduled_def attemptCount_def)
  have "retryBudget (subscribe v sy cb s) key = retryBudget s1 key"
    unfolding subscribe_unfold s1_def [symmetric]
    by (simp add: retryBudget_def retriesScheduled_def attemptCount_def)
  with 1 show ?thesis by simp
qed

lemma socket_after_setReadyState:
  "w < length (sockets s) \<Longrightarrow>
     sockets (setReadyState w st s) ! w = (sockets s ! w)\<lparr>readyState := st\<rparr>"
  by (simp add: setReadyState_def)

lemma socketKey_setReadyState:
  "w < length (sockets s) \<Longrightarrow> socketKey (setReadyState w st s) w = socketKey s w"
  by (simp add: socketKey_def socket_after_setReadyState)

lemma retryBudget_cong_key:
  assumes "map task (timers s') = map task (timers s)"
    and "reconnectAttempts s' key = reconnectAttempts s key"
  shows "retryBudget s' key = retryBudget s key"
  using assms by (simp add: retryBudget_def retriesScheduled_def attemptCount_def)

lemma retryBudget_ws_onopen_other:
  assumes "channelKey (ws_venue (sockets s ! w)) (ws_symbol (sockets s ! w)) \<noteq> key"
  shows "retryBudget (ws_onopen w s) key = retryBudget s key"
  using assms
  by (intro retryBudget_cong_key) (simp_all add: ws_onopen_def Let_def)

lemma retryBudget_disconnect_other:
  assumes "channelKey v sy \<noteq> key"
  shows "retryBudget (disconnect v sy s) key = retryBudget s key"
  using assms
  by (intro retryBudget_cong_key)
    (auto simp add: disconnect_def Let_def split: option.splits connection.splits)

lemma retryBudget_unsubscribe_other:
  assumes "channelKey v sy \<noteq> key"
  shows "retryBudget (unsubscribe v sy cb s) key = retryBudget s key"
proof -
  have "retryBudget
      (case subscribers s (channelKey v sy) of
         None \<Rightarrow> s
       | Some cs \<Rightarrow> s\<lparr>subscribers := (subscribers s)(channelKey v sy \<mapsto> removeAll cb cs)\<rparr>) key
      = retryBudget s key"
    by (intro retryBudget_cong_key) (simp_all split: option.splits)
  then show ?thesis
    using assms by (simp add: unsubscribe_def Let_def retryBudget_disconnect_other)
qed

lemma retryBudget_step:
  assumes "\<not> resetsCount key s e"
  shows "retryBudget (step pf e s) key \<le> retryBudget s key"
proof (cases e)
  case (Subscribe v sy cb)
  then show ?thesis by (simp add: step_def)
next
  case (InvokeUnsubscribe n)
  show ?thesis
  proof (cases "n < length (handles s)")
    case True
    with assms InvokeUnsubscribe
    have k: "channelKey (h_venue (handles s ! n)) (h_symbol (handles s ! n)) \<noteq> key"
      by (simp add: handle_key_def)
    have "retryBudget (s\<lparr>handles := (handles s)[n := (handles s ! n)\<lparr>invoked := True\<rparr>]\<rparr>) key
        = retryBudget s key"
      by (intro retryBudget_cong_key) simp_all
    with True InvokeUnsubscribe k show ?thesis
      by (simp add: step_def Let_def retryBudget_unsubscribe_other)
  next
    case False
    with InvokeUnsubscribe show ?thesis by (simp add: step_def)
  qed
next
  case (WsOpen w)
  show ?thesis
  proof (cases "w < length (sockets s)")
    case True
    with assms WsOpen have "socketKey s w \<noteq> key" by simp
    then have "socketKey (setReadyState w OPEN s) w \<noteq> key"
      using True by (simp add: socketKey_setReadyState)
    then have "retryBudget (ws_onopen w (setReadyState w OPEN s)) key = retryBudget s key"
      by (simp add: retryBudget_ws_onopen_other socketKey_def)
    with True WsOpen show ?thesis by (simp add: step_def)
  next
    case False
    with WsOpen show ?thesis by (simp add: step_def)
  qed
next
  case (WsMessage w parsed now)
  have "retryBudget (ws_onmessage pf w parsed now s) key = retryBudget s key"
    by (rule retryBudget_cong) simp_all
  with WsMessage show ?thesis by (simp add: step_def)
next
  case (WsClose w code)
  have "retryBudget (ws_onclose w code s') key \<le> retryBudget s' key" for s'
    using retryBudget_handleReconnect [of _ _ _ _ "clearTimer (connectionTimeout (sockets s' ! w)) s'" key]
    by (simp add: ws_onclose_def Let_def)
  from this [of "setReadyState w CLOSED s"] WsClose show ?thesis
    by (simp add: step_def)
next
  case (WsError w)
  then show ?thesis by (simp add: step_def ws_onerror_def Let_def)
next
  case (TimerFires t random now)
  have "retryBudget (runTimer tsk random now s') key = retryBudget s' key" for tsk s'
    by (cases tsk) (simp_all add: runTimer_def)
  with TimerFires show ?thesis by (simp add: step_def Let_def)
qed

lemma retryBudget_run:
  assumes "noReset pf key s es"
  shows "retryBudget (run pf es s) key \<le> retryBudget s key"
  using assms
proof (induction es arbitrary: s)
  case Nil
  show ?case by (simp add: run_Nil)
next
  case (Cons e es)
  then have "retryBudget (run pf es (step pf e s)) key \<le> retryBudget (step pf e s) key"
    by simp
  also have "\<dots> \<le> retryBudget s key" using Cons.prems by (simp add: retryBudget_step)
  finally show ?case by (simp add: run_Cons)
qed

subsection \<open>Socket events and the attempt count\<close>

lemma attemptCount_cong:
  "reconnectAttempts s' = reconnectAttempts s \<Longrightarrow> attemptCount s' key = attemptCount s key"
  by (simp add: attemptCount_def)

lemma open_resets_attempts:
  assumes "w < length (sockets s)"
  shows "reconnectAttempts (step pf (WsOpen w) s) (socketKey s w) = Some 0"
  using assms
  by (simp add: step_def ws_onopen_def Let_def socketKey_def socket_after_setReadyState)

lemma abnormal_close_unfold:
  assumes "w < length (sockets s)" "code \<noteq> 1000"
  shows "step pf (WsClose w code) s =
      handleReconnect (socketKey s w) (ws_venue (sockets s ! w)) (ws_symbol (sockets s ! w))
        (ws_url (sockets s ! w))
        (clearTimer (connectionTimeout (sockets s ! w)) (setReadyState w CLOSED s))"
  using assms
  by (simp add: step_def ws_onclose_def Let_def socketKey_def socket_after_setReadyState)

lemma abnormal_close_retries:
  assumes w: "w < length (sockets s)" and code: "code \<noteq> 1000"
    and below: "attemptCount s (socketKey s w) < maxReconnectAttempts"
  shows "attemptCount (step pf (WsClose w code) s) (socketKey s w)
           = attemptCount s (socketKey s w) + 1"
    and "drop (length (timers s)) (timers (step pf (WsClose w code) s)) =
           [\<lparr>task = Reconnect (socketKey s w) (ws_venue (sockets s ! w))
                     (ws_symbol (sockets s ! w)) (ws_url (sockets s ! w)),
             delay = min (reconnectDelay * 2 ^ attemptCount s (socketKey s w)) 30000,
             repeating = False, pending = True\<rparr>]"
proof -
  let ?s1 = "clearTimer (connectionTimeout (sockets s ! w)) (setReadyState w CLOSED s)"
  have a1: "attemptCount ?s1 (socketKey s w) = attemptCount s (socketKey s w)"
    by (rule attemptCount_cong) simp
  then have b1: "attemptCount ?s1 (socketKey s w) < maxReconnectAttempts" using below by simp
  have len: "length (timers ?s1) = length (timers s)" by simp
  show "attemptCount (step pf (WsClose w code) s) (socketKey s w)
           = attemptCount s (socketKey s w) + 1"
    unfolding abnormal_close_unfold [OF w code]
      attemptCount_def [of "handleReconnect _ _ _ _ _"] handleReconnect_below(1) [OF b1]
    using a1 by simp
  show "drop (length (timers s)) (timers (step pf (WsClose w code) s)) =
           [\<lparr>task = Reconnect (socketKey s w) (ws_venue (sockets s ! w))
                     (ws_symbol (sockets s ! w)) (ws_url (sockets s ! w)),
             delay = min (reconnectDelay * 2 ^ attemptCount s (socketKey s w)) 30000,
             repeating = False, pending = True\<rparr>]"
    unfolding abnormal_close_unfold [OF w code] handleReconnect_below(2) [OF b1] a1
    using len by simp
qed

lemma abnormal_close_exhausted:
  assumes w: "w < length (sockets s)" and code: "code \<noteq> 1000"
    and full: "maxReconnectAttempts \<le> attemptCount s (socketKey s w)"
  shows "attemptCount (step pf (WsClose w code) s) (socketKey s w)
           = attemptCount s (socketKey s w)"
    and "drop (length (timers s)) (timers (step pf (WsClose w code) s)) =
           [\<lparr>task = MockFeed (ws_venue (sockets s ! w)) (ws_symbol (sockets s ! w)),
             delay = 3000, repeating = True, pending = True\<rparr>]"
    and "wsConnections (step pf (WsClose w code) s) (socketKey s w @ ''-interval'')
           = Some (IntervalHandle (length (timers s)))"
proof -
  let ?s1 = "clearTimer (connectionTimeout (sockets s ! w)) (setReadyState w CLOSED s)"
  have a1: "attemptCount ?s1 (socketKey s w) = attemptCount s (socketKey s w)"
    by (rule attemptCount_cong) simp
  then have b1: "\<not> attemptCount ?s1 (socketKey s w) < maxReconnectAttempts" using full by simp
  have len: "length (timers ?s1) = length (timers s)" by simp
  have st: "step pf (WsClose w code) s =
      startMockDataFeed (ws_venue (sockets s ! w)) (ws_symbol (sockets s ! w)) ?s1"
    unfolding abnormal_close_unfold [OF w code] handleReconnect_exhausted [OF b1] ..
  show "attemptCount (step pf (WsClose w code) s) (socketKey s w)
           = attemptCount s (socketKey s w)"
    unfolding st by (rule attemptCount_cong) simp
  show "drop (length (timers s)) (timers (step pf (WsClose w code) s)) =
           [\<lparr>task = MockFeed (ws_venue (sockets s ! w)) (ws_symbol (sockets s ! w)),
             delay = 3000, repeating = True, pending = True\<rparr>]"
    unfolding st using len by simp
  show "wsConnections (step pf (WsClose w code) s) (socketKey s w @ ''-interval'')
           = Some (IntervalHandle (length (timers s)))"
    unfolding st using len by (simp add: startMockDataFeed_def Let_def socketKey_def)
qed

lemma retries_bounded:
  assumes "noReset pf key s es"
  shows "retriesScheduled (run pf es s) key
       \<le> retriesScheduled s key + (maxReconnectAttempts - attemptCount s key)"
proof -
  have "retriesScheduled (run pf es s) key \<le> retryBudget (run pf es s) key"
    by (simp add: retryBudget_def)
  also have "\<dots> \<le> retryBudget s key" using assms by (rule retryBudget_run)
  finally show ?thesis by (simp add: retryBudget_def)
qed

subsection \<open>A channel without listeners\<close>

lemma deliveredTo_notifySubscribers:
  "deliveredTo (notifySubscribers k data s) key =
     deliveredTo s key @
       (if k = key then map (\<lambda>callback. (key, callback, data)) (listenerList s key) else [])"
  by (cases "subscribers s k")
    (auto simp: deliveredTo_def notifySubscribers_def listenerList_def filter_empty_conv)

lemma deliveredTo_cong:
  "delivered s' = delivered s \<Longrightarrow> deliveredTo s' key = deliveredTo s key"
  by (simp add: deliveredTo_def)

lemma listenerList_cong:
  "subscribers s' = subscribers s \<Longrightarrow> listenerList s' key = listenerList s key"
  by (simp add: listenerList_def)

lemma delivered_subscribe: "delivered (subscribe v sy cb s) = delivered s"
proof -
  define s1 where "s1 = s\<lparr>subscribers := (subscribers s)(channelKey v sy \<mapsto>
        (if cb \<in> set (listenerList s (channelKey v sy)) then listenerList s (channelKey v sy)
         else listenerList s (channelKey v sy) @ [cb]))\<rparr>"
  have "delivered (subscribe v sy cb s) = delivered s1"
    unfolding subscribe_unfold s1_def [symmetric] by simp
  then show ?thesis by (simp add: s1_def)
qed

lemma delivered_unsubscribe: "delivered (unsubscribe v sy cb s) = delivered s"
  by (simp add: unsubscribe_def Let_def split: option.splits)

lemma deliveredTo_runTimer:
  assumes "listenerList s key = []"
  shows "deliveredTo (runTimer tsk random now s) key = deliveredTo s key"
proof (cases tsk)
  case (ConnectionTimeout w v sy)
  have "delivered (runTimer tsk random now s) = delivered s"
    using ConnectionTimeout by (simp add: runTimer_def)
  then show ?thesis by (rule deliveredTo_cong)
next
  case (Reconnect k v sy url)
  have "delivered (runTimer tsk random now s) = delivered s"
    using Reconnect by (simp add: runTimer_def)
  then show ?thesis by (rule deliveredTo_cong)
next
  case (MockFeed v sy)
  then show ?thesis
    using assms by (simp add: runTimer_def deliveredTo_notifySubscribers)
qed

lemma deliveredTo_ws_onmessage:
  assumes "listenerList s key = []"
  shows "deliveredTo (ws_onmessage pf w parsed now s) key = deliveredTo s key"
  using assms
  by (simp add: ws_onmessage_def Let_def deliveredTo_notifySubscribers split: option.splits)

lemma step_quiet:
  assumes quiet: "listenerList s key = []" and other: "\<not> subscribesTo key e"
  shows "listenerList (step pf e s) key = []"
    and "deliveredTo (step pf e s) key = deliveredTo s key"
proof -
  have "listenerList (step pf e s) key = [] \<and> deliveredTo (step pf e s) key = deliveredTo s key"
  proof (cases e)
    case (Subscribe v sy cb)
    with other have "key \<noteq> channelKey v sy" by auto
    then have "listenerList (subscribe v sy cb s) key = []"
      using quiet by (simp add: listenerList_subscribe)
    moreover have "deliveredTo (subscribe v sy cb s) key = deliveredTo s key"
      by (rule deliveredTo_cong) (rule delivered_subscribe)
    ultimately show ?thesis using Subscribe by (simp add: step_def)
  next
    case (InvokeUnsubscribe n)
    show ?thesis
    proof (cases "n < length (handles s)")
      case True
      let ?h = "handles s ! n"
      let ?s1 = "s\<lparr>handles := (handles s)[n := ?h\<lparr>invoked := True\<rparr>]\<rparr>"
      have st: "step pf e s = unsubscribe (h_venue ?h) (h_symbol ?h) (h_callback ?h) ?s1"
        using InvokeUnsubscribe True by (simp add: step_def Let_def)
      have q1: "listenerList ?s1 key = []" using quiet by (simp add: listenerList_def)
      have d1: "deliveredTo ?s1 key = deliveredTo s key" by (simp add: deliveredTo_def)
      have "listenerList (step pf e s) key = []"
        unfolding st listenerList_unsubscribe using q1 by auto
      moreover have "deliveredTo (step pf e s) key = deliveredTo ?s1 key"
        unfolding st by (rule deliveredTo_cong) (rule delivered_unsubscribe)
      ultimately show ?thesis using d1 by simp
    next
      case False
      then show ?thesis using quiet InvokeUnsubscribe by (simp add: step_def)
    qed
  next
    case (WsOpen w)
    have "subscribers (step pf e s) = subscribers s" using WsOpen by (simp add: step_def)
    moreover have "delivered (step pf e s) = delivered s" using WsOpen by (simp add: step_def)
    ultimately show ?thesis
      using quiet listenerList_cong [of "step pf e s" s key]
        deliveredTo_cong [of "step pf e s" s key] by simp
  next
    case (WsMessage w parsed now)
    have "subscribers (step pf e s) = subscribers s" using WsMessage by (simp add: step_def)
    moreover have "deliveredTo (step pf e s) key = deliveredTo s key"
      using WsMessage deliveredTo_ws_onmessage [OF quiet] by (simp add: step_def)
    ultimately show ?thesis
      using quiet listenerList_cong [of "step pf e s" s key] by simp
  next
    case (WsClose w code)
    have "subscribers (step pf e s) = subscribers s" using WsClose by (simp add: step_def)
    moreover have "delivered (step pf e s) = delivered s" using WsClose by (simp add: step_def)
    ultimately show ?thesis
      using quiet listenerList_cong [of "step pf e s" s key]
        deliveredTo_cong [of "step pf e s" s key] by simp
  next
    case (WsError w)
    have "subscribers (step pf e s) = subscribers s" using WsError by (simp add: step_def)
    moreover have "delivered (step pf e s) = delivered s" using WsError by (simp add: step_def)
    ultimately show ?thesis
      using quiet listenerList_cong [of "step pf e s" s key]
        deliveredTo_cong [of "step pf e s" s key] by simp
  next
    case (TimerFires t random now)
    have sub: "subscribers (step pf e s) = subscribers s"
      using TimerFires by (simp add: step_def Let_def)
    have q2: "listenerList (clearTimer t s) key = []"
      using quiet listenerList_cong [of "clearTimer t s" s key] by simp
    have d2: "deliveredTo (clearTimer t s) key = deliveredTo s key"
      by (rule deliveredTo_cong) simp
    have "deliveredTo (step pf e s) key = deliveredTo s key"
    proof (cases "t < length (timers s) \<and> pending (timers s ! t)")
      case False
      then have "step pf e s = s" using TimerFires by (auto simp: step_def)
      then show ?thesis by simp
    next
      case True
      show ?thesis
      proof (cases "repeating (timers s ! t)")
        case r: True
        have "step pf e s = runTimer (task (timers s ! t)) random now s"
          using TimerFires True r by (simp add: step_def Let_def)
        then show ?thesis using deliveredTo_runTimer [OF quiet] by simp
      next
        case r: False
        have "step pf e s = runTimer (task (timers s ! t)) random now (clearTimer t s)"
          using TimerFires True r by (simp add: step_def Let_def)
        then show ?thesis using deliveredTo_runTimer [OF q2] d2 by simp
      qed
    qed
    then show ?thesis
      using sub quiet listenerList_cong [of "step pf e s" s key] by simp
  qed
  then show "listenerList (step pf e s) key = []"
    and "deliveredTo (step pf e s) key = deliveredTo s key"
    by simp_all
qed

lemma run_quiet:
  assumes "listenerList s key = []" "\<not> list_ex (subscribesTo key) es"
  shows "deliveredTo (run pf es s) key = deliveredTo s key"
  using assms
proof (induction es arbitrary: s)
  case Nil
  show ?case by (simp add: run_Nil)
next
  case (Cons e es)
  from Cons.prems have e: "\<not> subscribesTo key e" and es: "\<not> list_ex (subscribesTo key) es"
    by simp_all
  from Cons.IH [OF step_quiet(1) [OF Cons.prems(1) e] es, of pf]
  show ?case by (simp add: run_Cons step_quiet(2) [OF Cons.prems(1) e])
qed

subsection \<open>The last unsubscribe\<close>

lemma last_unsubscribe_unfold:
  assumes n: "n < length (handles s)"
    and last: "listenerList s (handle_key (handles s ! n)) = [h_callback (handles s ! n)]"
  shows "step pf (InvokeUnsubscribe n) s =
      disconnect (h_venue (handles s ! n)) (h_symbol (handles s ! n))
        (s\<lparr>handles := (handles s)[n := (handles s ! n)\<lparr>invoked := True\<rparr>],
           subscribers := (subscribers s)(handle_key (handles s ! n) \<mapsto> [])\<rparr>)"
proof -
  from last have "subscribers s (handle_key (handles s ! n)) = Some [h_callback (handles s ! n)]"
    by (simp add: listenerList_def split: option.splits)
  then show ?thesis
    using n by (simp add: step_def Let_def unsubscribe_def handle_key_def)
qed

lemma disconnect_normal:
  assumes sock: "\<And>t. wsConnections s (channelKey v sy) \<noteq> Some (IntervalHandle t)"
  defines "key \<equiv> channelKey v sy"
  shows "wsConnections (disconnect v sy s) key = None"
    and "wsConnections (disconnect v sy s) (key @ ''-interval'') = None"
    and "subscribers (disconnect v sy s) key = None"
    and "reconnectAttempts (disconnect v sy s) key = None"
    and "timers (disconnect v sy s) =
           (case wsConnections s (key @ ''-interval'') of
              Some (IntervalHandle t) \<Rightarrow> timers (clearTimer t s)
            | _ \<Rightarrow> timers s)"
    and "sockets (disconnect v sy s) =
           (case wsConnections s key of
              Some (Socket w) \<Rightarrow> sockets (closeSocket w s)
            | _ \<Rightarrow> sockets s)"
proof -
  have "wsConnections (disconnect v sy s) key = None
      \<and> wsConnections (disconnect v sy s) (key @ ''-interval'') = None
      \<and> subscribers (disconnect v sy s) key = None
      \<and> reconnectAttempts (disconnect v sy s) key = None
      \<and> timers (disconnect v sy s) =
           (case wsConnections s (key @ ''-interval'') of
              Some (IntervalHandle t) \<Rightarrow> timers (clearTimer t s)
            | _ \<Rightarrow> timers s)
      \<and> sockets (disconnect v sy s) =
           (case wsConnections s key of
              Some (Socket w) \<Rightarrow> sockets (closeSocket w s)
            | _ \<Rightarrow> sockets s)"
  proof (cases "wsConnections s key")
    case None
    show ?thesis
    proof (cases "wsConnections s (key @ ''-interval'')")
      case n2: None
      with None show ?thesis by (simp add: disconnect_def Let_def key_def [symmetric])
    next
      case (Some i)
      with None show ?thesis
        by (cases i) (simp_all add: disconnect_def Let_def key_def [symmetric])
    qed
  next
    case (Some c)
    with sock obtain w where c: "c = Socket w" by (cases c) (auto simp: key_def)
    show ?thesis
    proof (cases "wsConnections s (key @ ''-interval'')")
      case None
      with Some c show ?thesis by (simp add: disconnect_def Let_def key_def [symmetric])
    next
      case i: (Some i)
      with Some c show ?thesis
        by (cases i)
          (simp_all add: disconnect_def Let_def key_def [symmetric] clearTimer_def
            closeSocket_def)
    qed
  qed
  then show "wsConnections (disconnect v sy s) key = None"
    and "wsConnections (disconnect v sy s) (key @ ''-interval'') = None"
    and "subscribers (disconnect v sy s) key = None"
    and "reconnectAttempts (disconnect v sy s) key = None"
    and "timers (disconnect v sy s) =
           (case wsConnections s (key @ ''-interval'') of
              Some (IntervalHandle t) \<Rightarrow> timers (clearTimer t s)
            | _ \<Rightarrow> timers s)"
    and "sockets (disconnect v sy s) =
           (case wsConnections s key of
              Some (Socket w) \<Rightarrow> sockets (closeSocket w s)
            | _ \<Rightarrow> sockets s)"
    by blast+
qed

lemma last_unsubscribe_cleanup:
  fixes pf :: "string \<Rightarrow> real option" and s :: OrderBookService and n :: nat
  assumes n: "n < length (handles s)"
    and last: "listenerList s (handle_key (handles s ! n)) = [h_callback (handles s ! n)]"
    and sock: "\<And>t. wsConnections s (handle_key (handles s ! n)) \<noteq> Some (IntervalHandle t)"
  defines "key \<equiv> handle_key (handles s ! n)"
  defines "s' \<equiv> step pf (InvokeUnsubscribe n) s"
  shows "wsConnections s' key = None"
    and "wsConnections s' (key @ ''-interval'') = None"
    and "subscribers s' key = None"
    and "reconnectAttempts s' key = None"
    and "\<And>t. wsConnections s (key @ ''-interval'') = Some (IntervalHandle t) \<Longrightarrow>
           t < length (timers s) \<Longrightarrow> \<not> pending (timers s' ! t)"
    and "\<And>w. wsConnections s key = Some (Socket w) \<Longrightarrow> w < length (sockets s) \<Longrightarrow>
           readyState (sockets s' ! w) \<noteq> CONNECTING \<and> readyState (sockets s' ! w) \<noteq> OPEN"
proof -
  let ?v = "h_venue (handles s ! n)" and ?sy = "h_symbol (handles s ! n)"
  define s1 where "s1 = s\<lparr>handles := (handles s)[n := (handles s ! n)\<lparr>invoked := True\<rparr>],
           subscribers := (subscribers s)(handle_key (handles s ! n) \<mapsto> [])\<rparr>"
  have k: "channelKey ?v ?sy = key" by (simp add: key_def handle_key_def)
  have st: "s' = disconnect ?v ?sy s1"
    unfolding s'_def s1_def by (rule last_unsubscribe_unfold [OF n last])
  have ws1: "wsConnections s1 = wsConnections s" and t1: "timers s1 = timers s"
    and so1: "sockets s1 = sockets s"
    by (simp_all add: s1_def)
  have sock1: "\<And>t. wsConnections s1 (channelKey ?v ?sy) \<noteq> Some (IntervalHandle t)"
    using sock by (simp add: ws1 k key_def)
  note d = disconnect_normal [OF sock1, unfolded k, folded st]
  show "wsConnections s' key = None" by (rule d(1))
  show "wsConnections s' (key @ ''-interval'') = None" by (rule d(2))
  show "subscribers s' key = None" by (rule d(3))
  show "reconnectAttempts s' key = None" by (rule d(4))
  show "\<not> pending (timers s' ! t)"
    if "wsConnections s (key @ ''-interval'') = Some (IntervalHandle t)" "t < length (timers s)"
    for t
    using that by (simp add: d(5) ws1 clearTimer_def t1)
  show "readyState (sockets s' ! w) \<noteq> CONNECTING \<and> readyState (sockets s' ! w) \<noteq> OPEN"
    if "wsConnections s key = Some (Socket w)" "w < length (sockets s)" for w
    using that by (simp add: d(6) ws1 closeSocket_def so1)
qed

lemma last_unsubscribe_quiet:
  assumes n: "n < length (handles s)"
    and last: "listenerList s (handle_key (handles s ! n)) = [h_callback (handles s ! n)]"
  shows "listenerList (step pf (InvokeUnsubscribe n) s) (handle_key (handles s ! n)) = []"
proof -
  let ?s1 = "s\<lparr>handles := (handles s)[n := (handles s ! n)\<lparr>invoked := True\<rparr>]\<rparr>"
  have "listenerList ?s1 (handle_key (handles s ! n)) = [h_callback (handles s ! n)]"
    using last by (simp add: listenerList_def)
  then show ?thesis
    using n by (simp add: step_def Let_def listenerList_unsubscribe handle_key_def)
qed

subsection \<open>Order of generated and parsed levels\<close>

lemma parseLevels_prices:
  "map price (parseLevels pf now levels totalVol raw) = map price levels @ validPrices pf raw"
proof (induction raw arbitrary: levels totalVol)
  case Nil
  show ?case by simp
next
  case (Cons entry raw)
  obtain ps qs where e: "entry = (ps, qs)" by (cases entry)
  show ?case
    unfolding e by (simp add: Cons.IH not_le split: option.splits)
qed

lemma parseBinanceData_prices:
  assumes "parseBinanceData pf now data sy v = Some book"
  shows "\<exists>d rawBids rawAsks. (data = DirectDepth d \<or> data = StreamWrapper d)
           \<and> payload_bids d = Some rawBids \<and> payload_asks d = Some rawAsks
           \<and> map price (bids book) = validPrices pf rawBids
           \<and> map price (asks book) = validPrices pf rawAsks"
proof -
  obtain d where d: "data = DirectDepth d \<or> data = StreamWrapper d" by (cases data) auto
  then have od: "(case data of DirectDepth d \<Rightarrow> d | StreamWrapper d \<Rightarrow> d) = d" by auto
  from assms obtain rawBids rawAsks where
    r: "payload_bids d = Some rawBids" "payload_asks d = Some rawAsks"
    unfolding parseBinanceData_def Let_def od by (auto split: option.splits)
  from assms have "book = \<lparr>bids = parseLevels pf now [] 0 rawBids,
      asks = parseLevels pf now [] 0 rawAsks, symbol = sy, venue = v, data_timestamp = now\<rparr>"
    unfolding parseBinanceData_def Let_def od r by (simp split: if_splits)
  then have "map price (bids book) = validPrices pf rawBids"
    "map price (asks book) = validPrices pf rawAsks"
    by (simp_all add: parseLevels_prices)
  with d r show ?thesis by blast
qed

lemma mockLoop_done:
  "\<not> i < 20 \<Longrightarrow> mockLoop random now basePrice w i bl al tb ta = (bl, al)"
  by (subst mockLoop.simps) simp

lemma mockLoop_step:
  assumes "i < 20"
  shows "mockLoop random now basePrice w i bl al tb ta =
     mockLoop random now basePrice w (i + 1)
       (bl @ [\<lparr>price = toFixed 2 (basePrice - w / 2 - real i * (2 + random (4 * i) * 3)),
               quantity = toFixed 4 (random (4 * i + 2) * 3 + 0.05 * exp (- real i * 0.2)),
               total = toFixed 4
                 (tb + toFixed 4 (random (4 * i + 2) * 3 + 0.05 * exp (- real i * 0.2))),
               timestamp = now\<rparr>])
       (al @ [\<lparr>price = toFixed 2 (basePrice + w / 2 + real i * (2 + random (4 * i + 1) * 3)),
               quantity = toFixed 4 (random (4 * i + 3) * 3 + 0.05 * exp (- real i * 0.2)),
               total = toFixed 4
                 (ta + toFixed 4 (random (4 * i + 3) * 3 + 0.05 * exp (- real i * 0.2))),
               timestamp = now\<rparr>])
       (tb + toFixed 4 (random (4 * i + 2) * 3 + 0.05 * exp (- real i * 0.2)))
       (ta + toFixed 4 (random (4 * i + 3) * 3 + 0.05 * exp (- real i * 0.2)))"
  by (subst mockLoop.simps) (simp only: assms if_True Let_def)

lemma mockLoop_prices:
  "map price (fst (mockLoop random now basePrice w i bl al tb ta)) =
     map price bl @
       map (\<lambda>j. toFixed 2 (basePrice - w / 2 - real j * (2 + random (4 * j) * 3))) [i ..< 20]
   \<and> map price (snd (mockLoop random now basePrice w i bl al tb ta)) =
     map price al @
       map (\<lambda>j. toFixed 2 (basePrice + w / 2 + real j * (2 + random (4 * j + 1) * 3)))
         [i ..< 20]"
proof (induction "20 - i" arbitrary: i bl al tb ta)
  case 0
  then have "\<not> i < 20" by simp
  then show ?case by (simp add: mockLoop_done)
next
  case (Suc n)
  then have lt: "i < 20" by simp
  then have upt: "[i ..< 20] = i # [i + 1 ..< 20]" by (simp add: upt_conv_Cons)
  from Suc have n: "n = 20 - (i + 1)" by simp
  show ?case
    unfolding mockLoop_step [OF lt] upt
    using Suc.hyps(1) [OF n] by simp
qed

lemma map_insort_key:
  "map g (insort_key (\<lambda>x. f (g x)) a xs) = insort_key f (g a) (map g xs)"
  by (induction xs) simp_all

lemma map_sort_key:
  "map g (sort_key (\<lambda>x. f (g x)) xs) = sort_key f (map g xs)"
  by (induction xs) (simp_all add: map_insort_key)

lemma generateMockOrderBook_prices:
  "map price (bids (generateMockOrderBook random now sy v)) =
     sort_key uminus
       (map (\<lambda>j. toFixed 2
           ((if str_includes sy ''BTC'' then 45000 + random 0 * 10000 else 50000)
             - (2 + random (if str_includes sy ''BTC'' then 1 else 0) * 8) / 2
             - real j * (2 + random ((if str_includes sy ''BTC'' then 1 else 0) + 1 + 4 * j) * 3)))
         [0 ..< 20])"
  unfolding generateMockOrderBook_def Let_def
  by (simp add: map_sort_key [of price uminus] mockLoop_prices del: upt_Suc)

lemma generateMockOrderBook_sorted:
  "descending (bids (generateMockOrderBook random now sy v))"
  "ascending (asks (generateMockOrderBook random now sy v))"
proof -
  have "sorted (map (\<lambda>l. - price l) (bids (generateMockOrderBook random now sy v)))"
    by (simp add: generateMockOrderBook_def Let_def)
  then show "descending (bids (generateMockOrderBook random now sy v))"
    by (simp add: descending_def sorted_map)
  have "sorted (map price (asks (generateMockOrderBook random now sy v)))"
    by (simp add: generateMockOrderBook_def Let_def)
  then show "ascending (asks (generateMockOrderBook random now sy v))"
    by (simp add: ascending_def sorted_map)
qed

lemma mockLoop_length:
  "length (fst (mockLoop random now basePrice w i bl al tb ta)) = length bl + (20 - i)
   \<and> length (snd (mockLoop random now basePrice w i bl al tb ta)) = length al + (20 - i)"
proof (induction "20 - i" arbitrary: i bl al tb ta)
  case 0
  then have "\<not> i < 20" by simp
  then show ?case by (simp add: mockLoop_done)
next
  case (Suc n)
  then have lt: "i < 20" by simp
  from Suc have n: "n = 20 - (i + 1)" by simp
  show ?case
    unfolding mockLoop_step [OF lt]
    using Suc.hyps(1) [OF n] lt by (simp add: algebra_simps)
qed

lemma generateMockOrderBook_length:
  "length (bids (generateMockOrderBook random now sy v)) = 20"
  "length (asks (generateMockOrderBook random now sy v)) = 20"
  unfolding generateMockOrderBook_def Let_def by (simp_all add: mockLoop_length)

subsection \<open>Reconnect policy\<close>

text \<open>
  C3. The service counts the failed attempts of a key and allows five retries; the claim
  that a channel which failed five times in a row switches to the mock feed and never
  starts a sixth reconnect attempt is broken by the teardown. \<open>handleReconnect\<close> does
  not keep the handle of the retry's \<open>setTimeout\<close>, so \<open>disconnect\<close> cannot cancel a
  pending retry, while it does forget the attempt count of the key. In the run
  \<^const>\<open>teardownDuringBackoff\<close> the first connection of a channel and its four retries
  all close abnormally, so that the count is 5 and the fifth retry is pending; the only
  subscriber unsubscribes; the retry fires all the same and connects again for the key
  that has no listener left; that socket closes abnormally too. The count is now read as
  0: instead of the mock feed a sixth retry is scheduled, after 1000 ms, and no socket
  ever opened in between.
\<close>

theorem reconnect_after_teardown:
  "attemptCount (run (\<lambda>str. None) fiveFailedAttempts newService) ''binance-BTCUSDT'' = 5
   \<and> retriesScheduled (run (\<lambda>str. None) fiveFailedAttempts newService) ''binance-BTCUSDT'' = 5
   \<and> retriesScheduled (run (\<lambda>str. None) teardownDuringBackoff newService)
        ''binance-BTCUSDT'' = 6
   \<and> map (\<lambda>t. (delay t, repeating t, pending t))
       (timers (run (\<lambda>str. None) teardownDuringBackoff newService))
     = [(10000, False, False), (1000, False, False), (10000, False, False),
        (2000, False, False), (10000, False, False), (4000, False, False),
        (10000, False, False), (8000, False, False), (10000, False, False),
        (16000, False, False), (10000, False, False), (1000, False, True)]
   \<and> attemptCount (run (\<lambda>str. None) teardownDuringBackoff newService) ''binance-BTCUSDT'' = 1
   \<and> listenerList (run (\<lambda>str. None) teardownDuringBackoff newService) ''binance-BTCUSDT'' = []
   \<and> wsConnections (run (\<lambda>str. None) teardownDuringBackoff newService)
        ''binance-BTCUSDT-interval'' = None"
proof -
  let ?pf = "\<lambda>str :: string. None :: real option"
  let ?url = "''wss://stream.binance.com:9443/ws/'' @ toLowerCase ''BTCUSDT'' @ ''@depth20''"
  let ?b = "run ?pf fiveFailedAttempts newService"
  let ?s = "run ?pf teardownDuringBackoff newService"
  let ?B = "\<lparr>wsConnections = [''binance-BTCUSDT'' \<mapsto> Socket 4],
      subscribers = [''binance-BTCUSDT'' \<mapsto> [0]],
      reconnectAttempts = [''binance-BTCUSDT'' \<mapsto> 5],
      sockets = map (\<lambda>t. \<lparr>ws_venue = ''binance'', ws_symbol = ''BTCUSDT'', ws_url = ?url,
                            readyState = CLOSED, connectionTimeout = t\<rparr>) [0, 2, 4, 6, 8],
      timers = concat (map (\<lambda>n.
          [\<lparr>task = ConnectionTimeout n ''binance'' ''BTCUSDT'', delay = 10000,
            repeating = False, pending = False\<rparr>,
           \<lparr>task = Reconnect ''binance-BTCUSDT'' ''binance'' ''BTCUSDT'' ?url,
            delay = 1000 * 2 ^ n, repeating = False, pending = (n = 4)\<rparr>]) [0, 1, 2, 3, 4]),
      handles = [\<lparr>h_venue = ''binance'', h_symbol = ''BTCUSDT'', h_callback = 0,
                  invoked = False\<rparr>],
      delivered = [], thrown = []\<rparr>"
  have sb: "?b = ?B"
    by (simp add: fiveFailedAttempts_def run_def step_def subscribe_def unsubscribe_def disconnect_def
        connectToBinance_def connectToWebSocket_def startMockDataFeed_def handleReconnect_def
        ws_onclose_def runTimer_def setTimeout_def setInterval_def clearTimer_def
        closeSocket_def setReadyState_def newService_def channelKey_def
        maxReconnectAttempts_def reconnectDelay_def Let_def)
      (simp add: eval_nat_numeral)
  have split: "?s = run ?pf [InvokeUnsubscribe 0, TimerFires 9 (\<lambda>j. 0) 0, WsClose 5 1006] ?b"
    by (simp add: teardownDuringBackoff_def run_def)
  have ts: "map (\<lambda>t. (isReconnectFor ''binance-BTCUSDT'' (task t), delay t, repeating t, pending t))
      (timers ?s)
     = [(False, 10000, False, False), (True, 1000, False, False), (False, 10000, False, False),
        (True, 2000, False, False), (False, 10000, False, False), (True, 4000, False, False),
        (False, 10000, False, False), (True, 8000, False, False), (False, 10000, False, False),
        (True, 16000, False, False), (False, 10000, False, False), (True, 1000, False, True)]"
    unfolding split sb by (simp add: run_def step_def subscribe_def unsubscribe_def disconnect_def
        connectToBinance_def connectToWebSocket_def startMockDataFeed_def handleReconnect_def
        ws_onclose_def runTimer_def setTimeout_def setInterval_def clearTimer_def
        closeSocket_def setReadyState_def newService_def channelKey_def
        maxReconnectAttempts_def reconnectDelay_def Let_def)
  have a1: "attemptCount ?s ''binance-BTCUSDT'' = 1"
    unfolding split sb by (simp add: attemptCount_def run_def step_def subscribe_def unsubscribe_def disconnect_def
        connectToBinance_def connectToWebSocket_def startMockDataFeed_def handleReconnect_def
        ws_onclose_def runTimer_def setTimeout_def setInterval_def clearTimer_def
        closeSocket_def setReadyState_def newService_def channelKey_def
        maxReconnectAttempts_def reconnectDelay_def Let_def)
  have l: "listenerList ?s ''binance-BTCUSDT'' = []"
    unfolding split sb by (simp add: listenerList_def run_def step_def subscribe_def unsubscribe_def disconnect_def
        connectToBinance_def connectToWebSocket_def startMockDataFeed_def handleReconnect_def
        ws_onclose_def runTimer_def setTimeout_def setInterval_def clearTimer_def
        closeSocket_def setReadyState_def newService_def channelKey_def
        maxReconnectAttempts_def reconnectDelay_def Let_def)
  have w: "wsConnections ?s ''binance-BTCUSDT-interval'' = None"
    unfolding split sb by (simp add: run_def step_def subscribe_def unsubscribe_def disconnect_def
        connectToBinance_def connectToWebSocket_def startMockDataFeed_def handleReconnect_def
        ws_onclose_def runTimer_def setTimeout_def setInterval_def clearTimer_def
        closeSocket_def setReadyState_def newService_def channelKey_def
        maxReconnectAttempts_def reconnectDelay_def Let_def)
  have a5: "attemptCount ?b ''binance-BTCUSDT'' = 5"
    unfolding sb by (simp add: attemptCount_def)
  have r5: "retriesScheduled ?b ''binance-BTCUSDT'' = 5"
    unfolding sb by (simp add: retriesScheduled_def)
  have "length (filter (isReconnectFor ''binance-BTCUSDT'') (map task (timers ?s)))
      = length (filter fst (map (\<lambda>t. (isReconnectFor ''binance-BTCUSDT'' (task t), delay t,
          repeating t, pending t)) (timers ?s)))"
    by (simp add: filter_map comp_def)
  then have r6: "retriesScheduled ?s ''binance-BTCUSDT'' = 6"
    unfolding ts retriesScheduled_def by simp
  have "map (\<lambda>t. (delay t, repeating t, pending t)) (timers ?s)
      = map snd (map (\<lambda>t. (isReconnectFor ''binance-BTCUSDT'' (task t), delay t, repeating t,
          pending t)) (timers ?s))"
    by (simp add: comp_def)
  then have shape: "map (\<lambda>t. (delay t, repeating t, pending t)) (timers ?s)
     = [(10000, False, False), (1000, False, False), (10000, False, False),
        (2000, False, False), (10000, False, False), (4000, False, False),
        (10000, False, False), (8000, False, False), (10000, False, False),
        (16000, False, False), (10000, False, False), (1000, False, True)]"
    unfolding ts by simp
  from a5 r5 r6 shape a1 l w show ?thesis by blast
qed

text \<open>
  The policy as far as it holds. For every channel key: the open event of a socket sets
  the attempt count of the socket's key to 0; an abnormal close (a code other than 1000)
  at attempt count \<open>n < 5\<close> raises the count to \<open>n + 1\<close> and schedules exactly one timer, a
  retry after \<open>min(1000 * 2^n, 30000)\<close> milliseconds; an abnormal close at count 5 or more
  leaves the count, schedules no retry and starts the mock data feed; and along any
  events among which no socket of the key opens and no unsubscribe handle of the key is
  called, at most \<open>5 - n\<close> retries are ever scheduled for a key whose count was \<open>n\<close>.
\<close>

theorem reconnect_backoff_policy:
  "(w < length (sockets s) \<longrightarrow>
      reconnectAttempts (step pf (WsOpen w) s) (socketKey s w) = Some 0)
   \<and> (w < length (sockets s) \<and> code \<noteq> 1000 \<and> attemptCount s (socketKey s w) < 5 \<longrightarrow>
        attemptCount (step pf (WsClose w code) s) (socketKey s w)
          = attemptCount s (socketKey s w) + 1
        \<and> drop (length (timers s)) (timers (step pf (WsClose w code) s)) =
            [\<lparr>task = Reconnect (socketKey s w) (ws_venue (sockets s ! w))
                      (ws_symbol (sockets s ! w)) (ws_url (sockets s ! w)),
              delay = min (1000 * 2 ^ attemptCount s (socketKey s w)) 30000,
              repeating = False, pending = True\<rparr>])
   \<and> (w < length (sockets s) \<and> code \<noteq> 1000 \<and> 5 \<le> attemptCount s (socketKey s w) \<longrightarrow>
        attemptCount (step pf (WsClose w code) s) (socketKey s w)
          = attemptCount s (socketKey s w)
        \<and> drop (length (timers s)) (timers (step pf (WsClose w code) s)) =
            [\<lparr>task = MockFeed (ws_venue (sockets s ! w)) (ws_symbol (sockets s ! w)),
              delay = 3000, repeating = True, pending = True\<rparr>]
        \<and> wsConnections (step pf (WsClose w code) s) (socketKey s w @ ''-interval'')
            = Some (IntervalHandle (length (timers s))))
   \<and> (noReset pf key s es \<longrightarrow>
        retriesScheduled (run pf es s) key
          \<le> retriesScheduled s key + (5 - attemptCount s key))"
  using open_resets_attempts [of w s pf]
    abnormal_close_retries [of w s code pf] abnormal_close_exhausted [of w s code pf]
    retries_bounded [of pf key s es]
  by (simp add: maxReconnectAttempts_def reconnectDelay_def)

text \<open>
  The witness runs a channel whose six connections all fail: the first connection and five
  retries, after 1, 2, 4, 8 and 16 seconds; the sixth failure starts the mock feed.
\<close>

theorem reconnect_backoff_policy_witness:
  "retriesScheduled
     (run (\<lambda>str. None)
        [Subscribe ''binance'' ''BTCUSDT'' 0,
         WsClose 0 1006, TimerFires 1 (\<lambda>j. 0) 0,
         WsClose 1 1006, TimerFires 3 (\<lambda>j. 0) 0,
         WsClose 2 1006, TimerFires 5 (\<lambda>j. 0) 0,
         WsClose 3 1006, TimerFires 7 (\<lambda>j. 0) 0,
         WsClose 4 1006, TimerFires 9 (\<lambda>j. 0) 0,
         WsClose 5 1006] newService) ''binance-BTCUSDT'' = 5
   \<and> map (\<lambda>t. (delay t, repeating t, pending t))
       (timers (run (\<lambda>str. None)
        [Subscribe ''binance'' ''BTCUSDT'' 0,
         WsClose 0 1006, TimerFires 1 (\<lambda>j. 0) 0,
         WsClose 1 1006, TimerFires 3 (\<lambda>j. 0) 0,
         WsClose 2 1006, TimerFires 5 (\<lambda>j. 0) 0,
         WsClose 3 1006, TimerFires 7 (\<lambda>j. 0) 0,
         WsClose 4 1006, TimerFires 9 (\<lambda>j. 0) 0,
         WsClose 5 1006] newService))
     = [(10000, False, False), (1000, False, False), (10000, False, False),
        (2000, False, False), (10000, False, False), (4000, False, False),
        (10000, False, False), (8000, False, False), (10000, False, False),
        (16000, False, False), (10000, False, False), (3000, True, True)]"
proof -
  let ?es = "[Subscribe ''binance'' ''BTCUSDT'' 0,
         WsClose 0 1006, TimerFires 1 (\<lambda>j. 0) 0,
         WsClose 1 1006, TimerFires 3 (\<lambda>j. 0) 0,
         WsClose 2 1006, TimerFires 5 (\<lambda>j. 0) 0,
         WsClose 3 1006, TimerFires 7 (\<lambda>j. 0) 0,
         WsClose 4 1006, TimerFires 9 (\<lambda>j. 0) 0,
         WsClose 5 1006]"
  let ?s = "run (\<lambda>str. None) ?es newService"
  have ts: "map (\<lambda>t. (isReconnectFor ''binance-BTCUSDT'' (task t), delay t, repeating t, pending t))
      (timers ?s)
     = [(False, 10000, False, False), (True, 1000, False, False), (False, 10000, False, False),
        (True, 2000, False, False), (False, 10000, False, False), (True, 4000, False, False),
        (False, 10000, False, False), (True, 8000, False, False), (False, 10000, False, False),
        (True, 16000, False, False), (False, 10000, False, False), (False, 3000, True, True)]"
    by (simp add: run_def step_def subscribe_def connectToBinance_def connectToWebSocket_def
        startMockDataFeed_def handleReconnect_def ws_onclose_def runTimer_def setTimeout_def
        setInterval_def clearTimer_def closeSocket_def setReadyState_def newService_def
        channelKey_def maxReconnectAttempts_def reconnectDelay_def Let_def)
  have "map (\<lambda>t. (delay t, repeating t, pending t)) (timers ?s)
      = map snd (map (\<lambda>t. (isReconnectFor ''binance-BTCUSDT'' (task t), delay t, repeating t,
          pending t)) (timers ?s))"
    by (simp add: comp_def)
  then have shape: "map (\<lambda>t. (delay t, repeating t, pending t)) (timers ?s)
     = [(10000, False, False), (1000, False, False), (10000, False, False),
        (2000, False, False), (10000, False, False), (4000, False, False),
        (10000, False, False), (8000, False, False), (10000, False, False),
        (16000, False, False), (10000, False, False), (3000, True, True)]"
    unfolding ts by simp
  have "length (filter (isReconnectFor ''binance-BTCUSDT'') (map task (timers ?s)))
      = length (filter fst (map (\<lambda>t. (isReconnectFor ''binance-BTCUSDT'' (task t), delay t,
          repeating t, pending t)) (timers ?s)))"
    by (simp add: filter_map comp_def)
  then have ge: "retriesScheduled ?s ''binance-BTCUSDT'' = 5"
    unfolding ts retriesScheduled_def by simp
  have "noReset (\<lambda>str. None) ''binance-BTCUSDT'' newService ?es" by simp
  with reconnect_backoff_policy
      [of 0 newService "\<lambda>str. None" 1006 "''binance-BTCUSDT''" ?es]
  have "retriesScheduled ?s ''binance-BTCUSDT''
      \<le> retriesScheduled newService ''binance-BTCUSDT''
        + (5 - attemptCount newService ''binance-BTCUSDT'')"
    by blast
  with ge shape show ?thesis by simp
qed

subsection \<open>Teardown\<close>

text \<open>
  C4. The claim fails on the code. \<open>disconnect\<close> clears the one timer whose handle the
  service stored, the interval of the mock feed; the handle of a backoff retry is never
  kept and the connect timeout is a local of \<open>connectToWebSocket\<close>, so neither can be
  stopped. Calling the unsubscribe handle of the last subscriber while a backoff retry is
  pending leaves that timer pending, and when it fires it connects a new socket for the
  key that was torn down; calling the handle while the first socket is still connecting
  leaves the connect timeout pending.
\<close>

theorem last_unsubscribe_leaves_timers:
  "listenerList
     (run (\<lambda>str. None) [Subscribe ''binance'' ''BTCUSDT'' 0, WsClose 0 1006] newService)
     ''binance-BTCUSDT'' = [0]
   \<and> map (\<lambda>t. (isReconnectFor ''binance-BTCUSDT'' (task t), delay t))
       (pendingTimers
          (run (\<lambda>str. None)
             [Subscribe ''binance'' ''BTCUSDT'' 0, WsClose 0 1006, InvokeUnsubscribe 0]
             newService)
          ''binance-BTCUSDT'')
     = [(True, 1000)]
   \<and> listenerList
       (run (\<lambda>str. None)
          [Subscribe ''binance'' ''BTCUSDT'' 0, WsClose 0 1006, InvokeUnsubscribe 0,
           TimerFires 1 (\<lambda>j. 0) 0]
          newService)
       ''binance-BTCUSDT'' = []
   \<and> wsConnections
       (run (\<lambda>str. None)
          [Subscribe ''binance'' ''BTCUSDT'' 0, WsClose 0 1006, InvokeUnsubscribe 0,
           TimerFires 1 (\<lambda>j. 0) 0]
          newService)
       ''binance-BTCUSDT'' = Some (Socket 1)
   \<and> map readyState
       (sockets
          (run (\<lambda>str. None)
             [Subscribe ''binance'' ''BTCUSDT'' 0, WsClose 0 1006, InvokeUnsubscribe 0,
              TimerFires 1 (\<lambda>j. 0) 0]
             newService))
     = [CLOSED, CONNECTING]
   \<and> map (\<lambda>t. (task t, delay t))
       (pendingTimers
          (run (\<lambda>str. None) [Subscribe ''binance'' ''BTCUSDT'' 0, InvokeUnsubscribe 0]
             newService)
          ''binance-BTCUSDT'')
     = [(ConnectionTimeout 0 ''binance'' ''BTCUSDT'', 10000)]"
  by (simp add: run_def step_def subscribe_def unsubscribe_def disconnect_def
      connectToBinance_def connectToWebSocket_def startMockDataFeed_def handleReconnect_def
      ws_onclose_def runTimer_def setTimeout_def setInterval_def clearTimer_def closeSocket_def
      setReadyState_def notifySubscribers_def newService_def channelKey_def
      maxReconnectAttempts_def reconnectDelay_def Let_def pendingTimers_def deliveredTo_def
      listenerList_def)

text \<open>
  What the teardown does achieve. Calling the unsubscribe handle of the last remaining
  subscriber of a key leaves the key without listeners at once. Unless an interval handle
  is stored under the key itself, the call also closes the key's socket, clears the
  interval registered under \<open>"<key>-interval"\<close> and removes the key's connection,
  interval, subscriber and attempt-count entries. From then on no snapshot is delivered to
  any listener for that key, whatever the sockets and timers do, until \<open>subscribe\<close> is
  called for the key again.
\<close>

theorem last_unsubscribe_teardown:
  fixes pf :: "string \<Rightarrow> real option" and s :: OrderBookService and n :: nat
  assumes n: "n < length (handles s)"
    and last: "listenerList s (handle_key (handles s ! n)) = [h_callback (handles s ! n)]"
  defines "key \<equiv> handle_key (handles s ! n)"
  defines "s' \<equiv> step pf (InvokeUnsubscribe n) s"
  shows "listenerList s' key = []
       \<and> ((\<forall>t. wsConnections s key \<noteq> Some (IntervalHandle t)) \<longrightarrow>
            wsConnections s' key = None
            \<and> wsConnections s' (key @ ''-interval'') = None
            \<and> subscribers s' key = None
            \<and> reconnectAttempts s' key = None
            \<and> (\<forall>t. wsConnections s (key @ ''-interval'') = Some (IntervalHandle t)
                    \<and> t < length (timers s) \<longrightarrow> \<not> pending (timers s' ! t))
            \<and> (\<forall>w. wsConnections s key = Some (Socket w) \<and> w < length (sockets s) \<longrightarrow>
                    readyState (sockets s' ! w) \<noteq> CONNECTING
                    \<and> readyState (sockets s' ! w) \<noteq> OPEN))
       \<and> (\<forall>es. \<not> list_ex (subscribesTo key) es \<longrightarrow>
            deliveredTo (run pf es s') key = deliveredTo s' key)"
proof (intro conjI impI allI)
  show q: "listenerList s' key = []"
    unfolding s'_def key_def by (rule last_unsubscribe_quiet [OF n last])
  show "deliveredTo (run pf es s') key = deliveredTo s' key"
    if "\<not> list_ex (subscribesTo key) es" for es
    using q that by (rule run_quiet)
next
  assume a: "\<forall>t. wsConnections s key \<noteq> Some (IntervalHandle t)"
  then have sock: "\<And>t. wsConnections s (handle_key (handles s ! n)) \<noteq> Some (IntervalHandle t)"
    by (simp add: key_def)
  note c = last_unsubscribe_cleanup [OF n last sock, where pf = pf, folded key_def s'_def]
  show "wsConnections s' key = None" by (rule c(1))
  show "wsConnections s' (key @ ''-interval'') = None" by (rule c(2))
  show "subscribers s' key = None" by (rule c(3))
  show "reconnectAttempts s' key = None" by (rule c(4))
  show "\<not> pending (timers s' ! t)"
    if "wsConnections s (key @ ''-interval'') = Some (IntervalHandle t) \<and> t < length (timers s)"
    for t
    using that c(5) by blast
  show "readyState (sockets s' ! w) \<noteq> CONNECTING"
    if "wsConnections s key = Some (Socket w) \<and> w < length (sockets s)" for w
    using that c(6) by blast
  show "readyState (sockets s' ! w) \<noteq> OPEN"
    if "wsConnections s key = Some (Socket w) \<and> w < length (sockets s)" for w
    using that c(6) by blast
qed

text \<open>
  The witness: a Binance channel whose socket reported an error, so that the mock feed
  runs beside it; its only subscriber leaves; afterwards the interval fires no more and a
  late message of the socket reaches nobody.
\<close>

theorem last_unsubscribe_teardown_witness:
  "listenerList
     (run (\<lambda>str. None) [Subscribe ''binance'' ''BTCUSDT'' 0, WsError 0] newService)
     ''binance-BTCUSDT'' = [0]
   \<and> map pending
       (timers (run (\<lambda>str. None)
          [Subscribe ''binance'' ''BTCUSDT'' 0, WsError 0, InvokeUnsubscribe 0] newService))
     = [False, False]
   \<and> deliveredTo
       (run (\<lambda>str. None)
          [Subscribe ''binance'' ''BTCUSDT'' 0, WsError 0, InvokeUnsubscribe 0,
           TimerFires 1 (\<lambda>j. 0) 0,
           WsMessage 0 (Some (DirectDepth \<lparr>payload_bids = Some [], payload_asks = Some []\<rparr>)) 0]
          newService)
       ''binance-BTCUSDT''
     = deliveredTo
       (run (\<lambda>str. None)
          [Subscribe ''binance'' ''BTCUSDT'' 0, WsError 0, InvokeUnsubscribe 0] newService)
       ''binance-BTCUSDT''"
proof -
  let ?pf = "\<lambda>str :: string. None :: real option"
  let ?s = "run ?pf [Subscribe ''binance'' ''BTCUSDT'' 0, WsError 0] newService"
  let ?es = "[TimerFires 1 (\<lambda>j. 0) 0,
           WsMessage 0 (Some (DirectDepth \<lparr>payload_bids = Some [], payload_asks = Some []\<rparr>)) 0]"
  have h: "handles ?s
      = [\<lparr>h_venue = ''binance'', h_symbol = ''BTCUSDT'', h_callback = 0, invoked = False\<rparr>]"
    and l: "listenerList ?s ''binance-BTCUSDT'' = [0]"
    by (simp_all add: run_def step_def subscribe_def connectToBinance_def
        connectToWebSocket_def startMockDataFeed_def ws_onerror_def setTimeout_def
        setInterval_def clearTimer_def newService_def channelKey_def Let_def listenerList_def)
  have k: "handle_key (handles ?s ! 0) = ''binance-BTCUSDT''"
    by (simp add: h handle_key_def channelKey_def)
  have n: "0 < length (handles ?s)" by (simp add: h)
  have last: "listenerList ?s (handle_key (handles ?s ! 0)) = [h_callback (handles ?s ! 0)]"
    unfolding k l by (simp add: h)
  have r1: "run ?pf [Subscribe ''binance'' ''BTCUSDT'' 0, WsError 0, InvokeUnsubscribe 0]
      newService = step ?pf (InvokeUnsubscribe 0) ?s"
    by (simp add: run_def)
  have r2: "run ?pf
      [Subscribe ''binance'' ''BTCUSDT'' 0, WsError 0, InvokeUnsubscribe 0,
       TimerFires 1 (\<lambda>j. 0) 0,
       WsMessage 0 (Some (DirectDepth \<lparr>payload_bids = Some [], payload_asks = Some []\<rparr>)) 0]
      newService = run ?pf ?es (step ?pf (InvokeUnsubscribe 0) ?s)"
    by (simp add: run_def)
  have quiet: "\<not> list_ex (subscribesTo ''binance-BTCUSDT'') ?es" by simp
  have ev: "map pending (timers (step ?pf (InvokeUnsubscribe 0) ?s)) = [False, False]"
    unfolding r1 [symmetric]
    by (simp add: run_def step_def subscribe_def unsubscribe_def disconnect_def
        connectToBinance_def connectToWebSocket_def startMockDataFeed_def ws_onerror_def
        setTimeout_def setInterval_def clearTimer_def closeSocket_def newService_def
        channelKey_def Let_def)
  from last_unsubscribe_teardown [OF n last, where pf = ?pf, unfolded k] quiet
  have "deliveredTo (run ?pf ?es (step ?pf (InvokeUnsubscribe 0) ?s)) ''binance-BTCUSDT''
      = deliveredTo (step ?pf (InvokeUnsubscribe 0) ?s) ''binance-BTCUSDT''"
    by blast
  then show ?thesis
    using l ev unfolding r1 r2 by simp
qed

subsection \<open>Subscriber count\<close>

text \<open>
  C7, as the claim states it, fails: the listeners of a key form a set, so a listener
  subscribed twice is counted once while two handles are live.
\<close>

theorem subscriber_count_counterexample:
  "subscriberCount
     (run (\<lambda>str. None)
        [Subscribe ''binance'' ''BTCUSDT'' 0, Subscribe ''binance'' ''BTCUSDT'' 0] newService)
     ''binance-BTCUSDT'' = 1
   \<and> length (liveHandles
       (run (\<lambda>str. None)
          [Subscribe ''binance'' ''BTCUSDT'' 0, Subscribe ''binance'' ''BTCUSDT'' 0] newService)
       ''binance-BTCUSDT'') = 2"
  by (simp add: run_def step_def subscribe_def connectToBinance_def connectToWebSocket_def
      setTimeout_def newService_def channelKey_def Let_def subscriberCount_def
      liveHandles_def listenerList_def handle_key_def)

text \<open>
  C7, amended. For every key and every finite sequence of events (calls of
  \<open>subscribe\<close>, calls of unsubscribe handles, socket events and timers) in which the
  listeners passed to \<open>subscribe\<close> for that key are pairwise distinct, the subscriber
  count the service holds for the key equals the number of unsubscribe handles issued
  for the key and not yet invoked. (A count is a natural number and cannot be negative.)
\<close>

theorem subscriber_count_matches_live_handles:
  assumes "distinct (subscribedListeners key es)"
  shows "subscriberCount (run pf es newService) key
       = length (liveHandles (run pf es newService) key)"
  using count_invariant_run [OF assms, of pf]
  by (simp add: count_invariant_def subscriberCount_def)

theorem subscriber_count_matches_live_handles_witness:
  "length (liveHandles
     (run (\<lambda>str. None)
        [Subscribe ''binance'' ''BTCUSDT'' 0, Subscribe ''binance'' ''BTCUSDT'' 1,
         InvokeUnsubscribe 0] newService)
     ''binance-BTCUSDT'') = 1
   \<and> subscriberCount
     (run (\<lambda>str. None)
        [Subscribe ''binance'' ''BTCUSDT'' 0, Subscribe ''binance'' ''BTCUSDT'' 1,
         InvokeUnsubscribe 0] newService)
     ''binance-BTCUSDT'' = 1"
proof -
  let ?es = "[Subscribe ''binance'' ''BTCUSDT'' 0, Subscribe ''binance'' ''BTCUSDT'' 1,
         InvokeUnsubscribe 0]"
  have d: "distinct (subscribedListeners ''binance-BTCUSDT'' ?es)"
    by (simp add: channelKey_def)
  have ev: "length (liveHandles (run (\<lambda>str. None) ?es newService) ''binance-BTCUSDT'') = 1"
    by (simp add: run_def step_def subscribe_def unsubscribe_def connectToBinance_def
        connectToWebSocket_def setTimeout_def newService_def channelKey_def Let_def
        liveHandles_def handle_key_def)
  from subscriber_count_matches_live_handles [OF d, of "\<lambda>str. None"] ev
  show ?thesis by simp
qed

subsection \<open>Order of the levels\<close>

text \<open>
  C6, as the claim states it, fails: \<open>parseBinanceData\<close> does not sort, so a payload
  whose bids rise yields bids that rise; and \<open>generateMockOrderBook\<close> can draw the same
  price for two levels (here levels 4 and 7, both 49985), so its sorted bids are not
  strictly descending.
\<close>

theorem snapshot_order_counterexample:
  "parseBinanceData
     (\<lambda>str. if str = ''100'' then Some 100 else if str = ''101'' then Some 101
             else if str = ''1'' then Some 1 else None)
     0
     (DirectDepth \<lparr>payload_bids = Some [(''100'', ''1''), (''101'', ''1'')],
                   payload_asks = Some []\<rparr>)
     ''BTCUSDT'' ''binance''
   = Some \<lparr>bids = [\<lparr>price = 100, quantity = 1, total = 1, timestamp = 0\<rparr>,
                   \<lparr>price = 101, quantity = 1, total = 2, timestamp = 0\<rparr>],
           asks = [], symbol = ''BTCUSDT'', venue = ''binance'', data_timestamp = 0\<rparr>
   \<and> \<not> strictlyDescending
         [\<lparr>price = 100, quantity = 1, total = 1, timestamp = 0\<rparr>,
          \<lparr>price = 101, quantity = 1, total = 2, timestamp = 0\<rparr>]
   \<and> map price (bids (generateMockOrderBook (\<lambda>j. if j = 17 then 1 / 2 else 0) 0
         ''ETHUSDT'' ''okx''))
     = [49999, 49997, 49995, 49993, 49989, 49987, 49985, 49985, 49983, 49981,
        49979, 49977, 49975, 49973, 49971, 49969, 49967, 49965, 49963, 49961]
   \<and> \<not> strictlyDescending
         (bids (generateMockOrderBook (\<lambda>j. if j = 17 then 1 / 2 else 0) 0 ''ETHUSDT'' ''okx''))"
proof -
  have p: "map price (bids (generateMockOrderBook (\<lambda>j. if j = 17 then 1 / 2 else 0) 0
         ''ETHUSDT'' ''okx''))
     = [49999, 49997, 49995, 49993, 49989, 49987, 49985, 49985, 49983, 49981,
        49979, 49977, 49975, 49973, 49971, 49969, 49967, 49965, 49963, 49961]"
    unfolding generateMockOrderBook_prices by (simp add: toFixed_def upt_rec)
  have sd: "strictlyDescending levels = sorted_wrt (>) (map price levels)" for levels
    by (simp add: strictlyDescending_def sorted_wrt_map)
  have "\<not> strictlyDescending
      (bids (generateMockOrderBook (\<lambda>j. if j = 17 then 1 / 2 else 0) 0 ''ETHUSDT'' ''okx''))"
    unfolding sd p by simp
  moreover have "\<not> strictlyDescending
         [\<lparr>price = 100, quantity = 1, total = 1, timestamp = 0\<rparr>,
          \<lparr>price = 101, quantity = 1, total = 2, timestamp = 0\<rparr>]"
    by (simp add: strictlyDescending_def)
  moreover have "parseBinanceData
     (\<lambda>str. if str = ''100'' then Some 100 else if str = ''101'' then Some 101
             else if str = ''1'' then Some 1 else None)
     0
     (DirectDepth \<lparr>payload_bids = Some [(''100'', ''1''), (''101'', ''1'')],
                   payload_asks = Some []\<rparr>)
     ''BTCUSDT'' ''binance''
   = Some \<lparr>bids = [\<lparr>price = 100, quantity = 1, total = 1, timestamp = 0\<rparr>,
                   \<lparr>price = 101, quantity = 1, total = 2, timestamp = 0\<rparr>],
           asks = [], symbol = ''BTCUSDT'', venue = ''binance'', data_timestamp = 0\<rparr>"
    by (simp add: parseBinanceData_def Let_def)
  ultimately show ?thesis using p by blast
qed

text \<open>
  C6, amended. Every snapshot returned by \<open>generateMockOrderBook\<close> has 20 bids in
  descending and 20 asks in ascending order of price, where neighbouring prices may be
  equal. Every snapshot that \<open>parseBinanceData\<close> returns lists, on each side, the valid
  pairs of the payload in the payload's order; so its bids are strictly descending and its
  asks strictly ascending by price exactly when the valid pairs of the payload are.
\<close>

theorem snapshot_order:
  "descending (bids (generateMockOrderBook random now symbolName venueName))
   \<and> ascending (asks (generateMockOrderBook random now symbolName venueName))
   \<and> length (bids (generateMockOrderBook random now symbolName venueName)) = 20
   \<and> length (asks (generateMockOrderBook random now symbolName venueName)) = 20
   \<and> (parseBinanceData pf now data symbolName venueName = Some book \<longrightarrow>
        map price (bids book) = validPrices pf (rawSide (payload_bids (payloadOf data)))
        \<and> map price (asks book) = validPrices pf (rawSide (payload_asks (payloadOf data)))
        \<and> strictlyDescending (bids book)
            = sorted_wrt (>) (validPrices pf (rawSide (payload_bids (payloadOf data))))
        \<and> strictlyAscending (asks book)
            = sorted_wrt (<) (validPrices pf (rawSide (payload_asks (payloadOf data)))))"
proof (intro conjI impI)
  assume "parseBinanceData pf now data symbolName venueName = Some book"
  from parseBinanceData_prices [OF this] obtain d rawBids rawAsks where
    d: "data = DirectDepth d \<or> data = StreamWrapper d"
    and r: "payload_bids d = Some rawBids" "payload_asks d = Some rawAsks"
    and p: "map price (bids book) = validPrices pf rawBids"
      "map price (asks book) = validPrices pf rawAsks"
    by blast
  from d have "payloadOf data = d" by (auto simp: payloadOf_def)
  with r have rs: "rawSide (payload_bids (payloadOf data)) = rawBids"
    "rawSide (payload_asks (payloadOf data)) = rawAsks"
    by (simp_all add: rawSide_def)
  show "map price (bids book) = validPrices pf (rawSide (payload_bids (payloadOf data)))"
    unfolding rs by (rule p(1))
  show "map price (asks book) = validPrices pf (rawSide (payload_asks (payloadOf data)))"
    unfolding rs by (rule p(2))
  show "strictlyDescending (bids book)
      = sorted_wrt (>) (validPrices pf (rawSide (payload_bids (payloadOf data))))"
    unfolding rs p(1) [symmetric] by (simp add: strictlyDescending_def sorted_wrt_map)
  show "strictlyAscending (asks book)
      = sorted_wrt (<) (validPrices pf (rawSide (payload_asks (payloadOf data))))"
    unfolding rs p(2) [symmetric] by (simp add: strictlyAscending_def sorted_wrt_map)
qed (simp_all add: generateMockOrderBook_sorted generateMockOrderBook_length)

theorem snapshot_order_witness:
  "parseBinanceData
     (\<lambda>str. if str = ''100'' then Some 100 else if str = ''101'' then Some 101
             else if str = ''102'' then Some 102 else if str = ''1'' then Some 1 else None)
     0
     (StreamWrapper \<lparr>payload_bids = Some [(''101'', ''1''), (''abc'', ''1''), (''100'', ''1'')],
                     payload_asks = Some [(''102'', ''1'')]\<rparr>)
     ''BTCUSDT'' ''binance''
   = Some \<lparr>bids = [\<lparr>price = 101, quantity = 1, total = 1, timestamp = 0\<rparr>,
                   \<lparr>price = 100, quantity = 1, total = 2, timestamp = 0\<rparr>],
           asks = [\<lparr>price = 102, quantity = 1, total = 1, timestamp = 0\<rparr>],
           symbol = ''BTCUSDT'', venue = ''binance'', data_timestamp = 0\<rparr>
   \<and> strictlyDescending
       [\<lparr>price = 101, quantity = 1, total = 1, timestamp = 0\<rparr>,
        \<lparr>price = 100, quantity = 1, total = 2, timestamp = 0\<rparr>]
   \<and> strictlyAscending [\<lparr>price = 102, quantity = 1, total = 1, timestamp = 0\<rparr>]"
proof -
  let ?pf = "\<lambda>str. if str = ''100'' then Some 100 else if str = ''101'' then Some 101
             else if str = ''102'' then Some 102 else if str = ''1'' then Some (1 :: real)
             else None"
  let ?data = "StreamWrapper
      \<lparr>payload_bids = Some [(''101'', ''1''), (''abc'', ''1''), (''100'', ''1'')],
       payload_asks = Some [(''102'', ''1'')]\<rparr>"
  let ?book = "\<lparr>bids = [\<lparr>price = 101, quantity = 1, total = 1, timestamp = 0\<rparr>,
                   \<lparr>price = 100, quantity = 1, total = 2, timestamp = 0\<rparr>],
           asks = [\<lparr>price = 102, quantity = 1, total = 1, timestamp = 0\<rparr>],
           symbol = ''BTCUSDT'', venue = ''binance'', data_timestamp = 0\<rparr>"
  have ev: "parseBinanceData ?pf 0 ?data ''BTCUSDT'' ''binance'' = Some ?book"
    by (simp add: parseBinanceData_def Let_def)
  from snapshot_order [of "\<lambda>j. 0" 0 "''BTCUSDT''" "''binance''" ?pf ?data ?book] ev
  have "strictlyDescending (bids ?book)
      = sorted_wrt (>) (validPrices ?pf (rawSide (payload_bids (payloadOf ?data))))"
    and "strictlyAscending (asks ?book)
      = sorted_wrt (<) (validPrices ?pf (rawSide (payload_asks (payloadOf ?data))))"
    by blast+
  then have "strictlyDescending (bids ?book)" "strictlyAscending (asks ?book)"
    by (simp_all add: payloadOf_def rawSide_def)
  with ev show ?thesis by simp
qed

end
